theory Spec2Isabelle
  imports Main "HOL-Library.Sublist"
begin

section \<open>JavaScript strings and values\<close>

text \<open>
  A JavaScript string is modelled as a \<^typ>\<open>string\<close>: the list of its code units, each
  taken from the range 0..255. An optional value (\<^verbatim>\<open>undefined\<close> or a string) is a
  \<^typ>\<open>string option\<close>. The four characters that cannot be written inside a literal get
  names.
\<close>

definition SQ :: char where "SQ = CHR 0x27"
definition DQ :: char where "DQ = CHR 0x22"
definition BS :: char where "BS = CHR 0x5C"
definition LF :: char where "LF = CHR 0x0A"
definition CR :: char where "CR = CHR 0x0D"

text \<open>Truthiness of an optional string: \<^verbatim>\<open>undefined\<close> and \<^verbatim>\<open>''\<close> are falsy.\<close>

fun truthy :: "string option \<Rightarrow> bool" where
  "truthy None = False"
| "truthy (Some s) = (s \<noteq> [])"

text \<open>
  \<^verbatim>\<open>String.prototype.trim\<close>: the white space and line terminators of ECMAScript that
  fit in one 8-bit code unit are TAB, LF, VT, FF, CR, SP and NBSP.
\<close>

definition isWhiteSpace :: "char \<Rightarrow> bool" where
  "isWhiteSpace c =
     (c = CHR 0x09 \<or> c = CHR 0x0A \<or> c = CHR 0x0B \<or> c = CHR 0x0C \<or> c = CHR 0x0D
      \<or> c = CHR 0x20 \<or> c = CHR 0xA0)"

definition trimStart :: "string \<Rightarrow> string" where
  "trimStart s = dropWhile isWhiteSpace s"

definition trimEnd :: "string \<Rightarrow> string" where
  "trimEnd s = rev (dropWhile isWhiteSpace (rev s))"

definition trim :: "string \<Rightarrow> string" where
  "trim s = trimEnd (trimStart s)"

text \<open>\<^verbatim>\<open>String.prototype.startsWith\<close> and \<^verbatim>\<open>String.prototype.includes\<close>.\<close>

definition startsWith :: "string \<Rightarrow> string \<Rightarrow> bool" where
  "startsWith s p = prefix p s"

fun includesStr :: "string \<Rightarrow> string \<Rightarrow> bool" where
  "includesStr [] p = (p = [])"
| "includesStr (c # cs) p = (prefix p (c # cs) \<or> includesStr cs p)"

text \<open>\<^verbatim>\<open>Array.prototype.join\<close> on an array of strings.\<close>

fun joinWith :: "string \<Rightarrow> string list \<Rightarrow> string" where
  "joinWith sep [] = []"
| "joinWith sep [x] = x"
| "joinWith sep (x # y # ys) = x @ sep @ joinWith sep (y # ys)"

section \<open>The codex command builder (\<^verbatim>\<open>agent.js\<close>)\<close>

definition CODEX_CMD :: string where "CODEX_CMD = ''codex''"
definition BASE_ARGS :: string where "BASE_ARGS = ''--json --skip-git-repo-check''"
definition MODEL_ARG :: string where "MODEL_ARG = ''--model''"
definition THINKING_ARG :: string where "THINKING_ARG = ''--thinking''"

text \<open>
  \<^verbatim>\<open>String(value).replace(/'/g, String.raw`'\''`)\<close> wrapped in single quotes. The
  replacement text has four characters: quote, backslash, quote, quote.
\<close>

definition escapeQuote :: "char \<Rightarrow> string" where
  "escapeQuote c = (if c = SQ then [SQ, BS, SQ, SQ] else [c])"

definition shellQuote :: "string \<Rightarrow> string" where
  "shellQuote v = SQ # concat (map escapeQuote v) @ [SQ]"

record options =
  opt_threadId :: "string option"
  opt_promptExpression :: "string option"
  opt_model :: "string option"
  opt_thinking :: "string option"

definition resolvePromptValue :: "string \<Rightarrow> string option \<Rightarrow> string" where
  "resolvePromptValue prompt promptExpression =
     (case promptExpression of
        Some e \<Rightarrow> (if e \<noteq> [] then e else shellQuote prompt)
      | None \<Rightarrow> shellQuote prompt)"

definition appendOptionalArg :: "string \<Rightarrow> string \<Rightarrow> string option \<Rightarrow> string" where
  "appendOptionalArg args flag v =
     (case v of
        None \<Rightarrow> args
      | Some x \<Rightarrow>
          (if flag = [] \<or> x = [] then args
           else trim (args @ '' '' @ flag @ '' '' @ shellQuote x)))"

definition buildAgentCommand :: "string \<Rightarrow> options \<Rightarrow> string" where
  "buildAgentCommand prompt opts =
     (let promptValue = resolvePromptValue prompt (opt_promptExpression opts);
          args0 = BASE_ARGS;
          args1 = appendOptionalArg args0 MODEL_ARG (opt_model opts);
          args2 = appendOptionalArg args1 THINKING_ARG (opt_thinking opts)
      in case opt_threadId opts of
           Some t \<Rightarrow>
             (if t \<noteq> []
              then trim (CODEX_CMD @ '' exec resume '' @ shellQuote t @ '' '' @ args2
                         @ '' '' @ promptValue)
              else trim (CODEX_CMD @ '' exec '' @ args2 @ '' '' @ promptValue))
         | None \<Rightarrow> trim (CODEX_CMD @ '' exec '' @ args2 @ '' '' @ promptValue))"

section \<open>The codex output parser (\<^verbatim>\<open>agent.js\<close>)\<close>

text \<open>
  The values \<^verbatim>\<open>JSON.parse\<close> returns. An object keeps its members in document order;
  a number is an integer (fractions and exponents are outside the model).
\<close>

datatype json =
    JNull
  | JBool bool
  | JNumber int
  | JString string
  | JArray "json list"
  | JObject "(string \<times> json) list"

text \<open>
  Reading a property: \<open>None\<close> is \<^verbatim>\<open>undefined\<close>. Of a repeated member the last one
  counts. The parser below only reads properties of a value parsed from a text that
  starts with a brace, which is an object; the names it reads are own properties of no
  other kind of value.
\<close>

fun member :: "json \<Rightarrow> string \<Rightarrow> json option" where
  "member (JObject kvs) k = map_of (rev kvs) k"
| "member _ k = None"

fun jsTruthy :: "json option \<Rightarrow> bool" where
  "jsTruthy None = False"
| "jsTruthy (Some JNull) = False"
| "jsTruthy (Some (JBool b)) = b"
| "jsTruthy (Some (JNumber n)) = (n \<noteq> 0)"
| "jsTruthy (Some (JString s)) = (s \<noteq> [])"
| "jsTruthy (Some (JArray xs)) = True"
| "jsTruthy (Some (JObject kvs)) = True"

text \<open>\<^verbatim>\<open>String(v)\<close>: decimal digits for an integer, elements joined by commas for an array.\<close>

definition digitChar :: "nat \<Rightarrow> char" where
  "digitChar n = char_of (48 + n)"

fun showNat :: "nat \<Rightarrow> string" where
  "showNat n = (if n < 10 then [digitChar n] else showNat (n div 10) @ [digitChar (n mod 10)])"

declare showNat.simps [simp del]

definition showInt :: "int \<Rightarrow> string" where
  "showInt i = (if i < 0 then CHR ''-'' # showNat (nat (- i)) else showNat (nat i))"

fun jsString :: "json \<Rightarrow> string" where
  "jsString JNull = ''null''"
| "jsString (JBool b) = (if b then ''true'' else ''false'')"
| "jsString (JNumber n) = showInt n"
| "jsString (JString s) = s"
| "jsString (JArray xs) =
     joinWith '','' (map (\<lambda>x. if x = JNull then [] else jsString x) xs)"
| "jsString (JObject kvs) = ''[object Object]''"

text \<open>\<^verbatim>\<open>output.split(/\r?\n/)\<close>: a line ends at LF or at CR LF; a lone CR stays.\<close>

fun splitLinesFrom :: "string \<Rightarrow> string \<Rightarrow> string list" where
  "splitLinesFrom cur [] = [cur]"
| "splitLinesFrom cur [c] = (if c = LF then [cur, []] else [cur @ [c]])"
| "splitLinesFrom cur (c # c' # cs) =
     (if c = LF then cur # splitLinesFrom [] (c' # cs)
      else if c = CR \<and> c' = LF then cur # splitLinesFrom [] cs
      else splitLinesFrom (cur @ [c]) (c' # cs))"

definition splitLines :: "string \<Rightarrow> string list" where
  "splitLines output = splitLinesFrom [] output"

text \<open>
  The variables of the loop in \<^verbatim>\<open>parseCodexJsonOutput\<close>, and its body for one line.
  \<^verbatim>\<open>JSON.parse\<close> belongs to the runtime; it is a parameter, with \<open>None\<close> for a thrown
  \<^verbatim>\<open>SyntaxError\<close>.
\<close>

record scan_state =
  st_threadId :: "json option"
  st_messages :: "string list"
  st_sawJson :: bool
  st_buffer :: string

definition scanStart :: scan_state where
  "scanStart = \<lparr>st_threadId = None, st_messages = [], st_sawJson = False, st_buffer = []\<rparr>"

definition itemTypeOf :: "json \<Rightarrow> string" where
  "itemTypeOf item =
     (if jsTruthy (member item ''type'')
      then (case member item ''type'' of Some v \<Rightarrow> jsString v | None \<Rightarrow> [])
      else [])"

definition scanPayload :: "scan_state \<Rightarrow> json \<Rightarrow> scan_state" where
  "scanPayload st payload =
     (if member payload ''type'' = Some (JString ''thread.started'')
         \<and> jsTruthy (member payload ''thread_id'')
      then st\<lparr>st_threadId := member payload ''thread_id''\<rparr>
      else if member payload ''type'' = Some (JString ''item.completed'')
              \<and> jsTruthy (member payload ''item'')
      then (case member payload ''item'' of
              Some item \<Rightarrow>
                (case member item ''text'' of
                   Some (JString t) \<Rightarrow>
                     (if includesStr (itemTypeOf item) ''message''
                      then st\<lparr>st_messages := st_messages st @ [t]\<rparr>
                      else st)
                 | _ \<Rightarrow> st)
            | None \<Rightarrow> st)
      else st)"

definition scanLine :: "(string \<Rightarrow> json option) \<Rightarrow> scan_state \<Rightarrow> string \<Rightarrow> scan_state" where
  "scanLine JSON_parse st line =
     (if st_buffer st = [] \<and> \<not> startsWith line ''{'' then st
      else
        (let buffer = (if st_buffer st = [] then line else st_buffer st @ line)
         in case JSON_parse buffer of
              None \<Rightarrow> st\<lparr>st_buffer := buffer\<rparr>
            | Some payload \<Rightarrow> scanPayload (st\<lparr>st_sawJson := True, st_buffer := []\<rparr>) payload))"

record codex_output =
  co_text :: string
  co_threadId :: "json option"
  co_sawJson :: bool

definition parseCodexJsonOutput :: "(string \<Rightarrow> json option) \<Rightarrow> string \<Rightarrow> codex_output" where
  "parseCodexJsonOutput JSON_parse output =
     (let st = foldl (scanLine JSON_parse) scanStart (splitLines output)
      in \<lparr>co_text = trim (joinWith [LF] (st_messages st)),
          co_threadId = st_threadId st,
          co_sawJson = st_sawJson st\<rparr>)"

definition parseAgentOutput :: "(string \<Rightarrow> json option) \<Rightarrow> string \<Rightarrow> codex_output" where
  "parseAgentOutput JSON_parse output = parseCodexJsonOutput JSON_parse output"

section \<open>The thread store (\<^verbatim>\<open>thread-store.js\<close>)\<close>

text \<open>
  The thread map is a JavaScript \<^verbatim>\<open>Map\<close> from key strings to session ids. The chat id
  enters every key through \<^verbatim>\<open>String(chatId)\<close>; the model takes that rendering as the
  chat id.
\<close>

type_synonym thread_map = "string \<rightharpoonup> string"

definition buildThreadKey :: "string \<Rightarrow> string \<Rightarrow> string" where
  "buildThreadKey chatId agentId = chatId @ '':'' @ agentId"

definition getLegacyThreadKey :: "string \<Rightarrow> string" where
  "getLegacyThreadKey chatId = chatId"

record resolved =
  threadKey :: string
  threadId :: "string option"
  migrated :: bool

text \<open>
  \<^verbatim>\<open>resolveThreadId\<close> mutates the map it is given; the model returns the map after the
  call next to the result object. Both lookups are tested for truthiness, as the source
  does with \<^verbatim>\<open>if (direct)\<close> and \<^verbatim>\<open>if (legacy)\<close>.
\<close>

definition resolveThreadId ::
  "thread_map \<Rightarrow> string \<Rightarrow> string \<Rightarrow> resolved \<times> thread_map" where
  "resolveThreadId threads chatId agentId =
     (let key = buildThreadKey chatId agentId;
          direct = threads key
      in if truthy direct
         then (\<lparr>threadKey = key, threadId = direct, migrated = False\<rparr>, threads)
         else
           (let legacyKey = getLegacyThreadKey chatId;
                legacy = threads legacyKey
            in case legacy of
                 Some v \<Rightarrow>
                   (if v \<noteq> []
                    then (\<lparr>threadKey = key, threadId = Some v, migrated = True\<rparr>,
                          (threads(key \<mapsto> v))(legacyKey := None))
                    else (\<lparr>threadKey = key, threadId = None, migrated = False\<rparr>, threads))
               | None \<Rightarrow> (\<lparr>threadKey = key, threadId = None, migrated = False\<rparr>, threads)))"

definition clearThreadForAgent ::
  "thread_map \<Rightarrow> string \<Rightarrow> string \<Rightarrow> bool \<times> thread_map" where
  "clearThreadForAgent threads chatId agentId =
     (let key = buildThreadKey chatId agentId;
          legacyKey = getLegacyThreadKey chatId;
          removed = (threads key \<noteq> None);
          threads1 = threads(key := None);
          removedLegacy = (threads1 legacyKey \<noteq> None);
          threads2 = threads1(legacyKey := None)
      in (removed \<or> removedLegacy, threads2))"

section \<open>The agent runner (\<^verbatim>\<open>agent-runner.js\<close>)\<close>

text \<open>
  A value thrown by \<^verbatim>\<open>execLocal\<close> or by an awaited collaborator. \<open>err_stdout\<close> is
  \<open>Some s\<close> exactly when \<^verbatim>\<open>typeof err.stdout === 'string'\<close>.
\<close>

record js_error =
  err_message :: string
  err_stdout :: "string option"

datatype exec_result = Resolved string | Rejected js_error

text \<open>What \<^verbatim>\<open>agent.parseOutput\<close> returns: \<^verbatim>\<open>{ text, threadId, sawJson }\<close>.\<close>

record parsed_output =
  out_text :: "string option"
  out_threadId :: "string option"
  out_sawJson :: bool

record command_request =
  req_prompt :: string
  req_promptExpression :: "string option"
  req_threadId :: "string option"
  req_thinking :: "string option"
  req_model :: "string option"

text \<open>
  An agent adapter. The two optional capabilities are \<open>Some\<close> exactly when the
  corresponding property is a function; \<open>listSessionsCommand\<close> then holds the command
  that the function returns.
\<close>

record agent =
  agent_id :: string
  needsPty :: bool
  mergeStderr :: bool
  buildCommand :: "command_request \<Rightarrow> string"
  parseOutput :: "string \<Rightarrow> parsed_output"
  listSessionsCommand :: "string option"
  parseSessionList :: "(string \<Rightarrow> string option) option"

record run_options =
  ro_topicId :: "string option"
  ro_agentId :: "string option"
  ro_imagePaths :: "string list option"
  ro_scriptContext :: "string option"
  ro_documentPaths :: "string list option"

text \<open>
  The mutable state a turn reads and writes: the thread map behind \<^verbatim>\<open>getThreads()\<close>,
  the \<^verbatim>\<open>threadTurns\<close> map, the number of \<^verbatim>\<open>persistThreads()\<close> requests issued
  (each is fire-and-forget), the warnings written with \<^verbatim>\<open>console.warn\<close>, and the
  commands handed to \<^verbatim>\<open>execLocal\<close>, oldest first.
\<close>

datatype warning = ExitedNonZero js_error | SessionRecoveryFailed js_error

record world =
  w_threads :: thread_map
  w_threadTurns :: "string \<rightharpoonup> nat"
  w_persistRequests :: nat
  w_warnings :: "warning list"
  w_executed :: "string list"

text \<open>
  The options of \<^verbatim>\<open>createAgentRunner\<close>. The awaited collaborators return a thrown
  value as \<open>Inl\<close>; the synchronous ones are total functions. \<open>execLocal\<close> takes the
  commands executed so far and the command to run (shell, \<^verbatim>\<open>-lc\<close>, timeout and buffer
  cap are fixed per runner). \<open>buildPrompt\<close> takes the prompt with its context, the image
  paths, the script context, the document paths and the flag \<^verbatim>\<open>includeFileInstructions\<close>
  (the two directories are fixed per runner). \<open>toBase64\<close> is
  \<^verbatim>\<open>Buffer.from(s, 'utf8').toString('base64')\<close>; \<open>prefixTextWithTimestamp\<close> has the
  clock and the time zone folded in. The resolver and the quoting function are injected
  too; their fields carry a prefix to keep them apart from the functions defined above.
\<close>

record deps =
  buildBootstrapContext :: "string \<Rightarrow> js_error + string"
  buildMemoryRetrievalContext ::
    "string \<Rightarrow> string \<Rightarrow> string option \<Rightarrow> string \<Rightarrow> js_error + string"
  buildPrompt ::
    "string \<Rightarrow> string list \<Rightarrow> string option \<Rightarrow> string list \<Rightarrow> bool \<Rightarrow> string"
  execLocal :: "string list \<Rightarrow> string \<Rightarrow> exec_result"
  fileInstructionsEvery :: int
  getAgent :: "string \<Rightarrow> agent"
  getGlobalModels :: "string \<Rightarrow> string option"
  getGlobalThinking :: "string option"
  prefixTextWithTimestamp :: "string \<Rightarrow> string"
  resolveEffectiveAgentId :: "string \<Rightarrow> string option \<Rightarrow> string option \<Rightarrow> string"
  injected_resolveThreadId ::
    "thread_map \<Rightarrow> string \<Rightarrow> string option \<Rightarrow> string \<Rightarrow> resolved \<times> thread_map"
  injected_shellQuote :: "string \<Rightarrow> string"
  toBase64 :: "string \<Rightarrow> string"
  wrapCommandWithPty :: "string \<Rightarrow> string"

text \<open>
  The remainder operator on integers: \<^verbatim>\<open>a % n\<close> is \<^verbatim>\<open>NaN\<close> (here \<open>None\<close>) when
  \<open>n\<close> is zero and otherwise takes the sign of the dividend.
\<close>

definition js_rem :: "int \<Rightarrow> int \<Rightarrow> int option" where
  "js_rem a n = (if n = 0 then None else Some (sgn a * (\<bar>a\<bar> mod \<bar>n\<bar>)))"

text \<open>\<^verbatim>\<open>!threadId || turnCount % fileInstructionsEvery === 0\<close>\<close>

definition shouldIncludeFileInstructions :: "string option \<Rightarrow> nat \<Rightarrow> int \<Rightarrow> bool" where
  "shouldIncludeFileInstructions tid turnCount every =
     (\<not> truthy tid \<or> js_rem (int turnCount) every = Some 0)"

text \<open>\<^verbatim>\<open>(threadTurns.get(threadKey) || 0) + 1\<close>\<close>

definition nextTurnCount :: "(string \<rightharpoonup> nat) \<Rightarrow> string \<Rightarrow> nat" where
  "nextTurnCount turns key = (case turns key of None \<Rightarrow> 0 | Some n \<Rightarrow> n) + 1"

text \<open>\<^verbatim>\<open>a ? `${a}\n\n${b}` : b\<close>\<close>

definition joinBlocks :: "string \<Rightarrow> string \<Rightarrow> string" where
  "joinBlocks a b = (if a \<noteq> [] then a @ [LF, LF] @ b else b)"

text \<open>The PTY wrapper and the stderr redirection, applied to both commands of a turn.\<close>

definition decorateCommand :: "deps \<Rightarrow> agent \<Rightarrow> string \<Rightarrow> string" where
  "decorateCommand d a command =
     (let c1 = (if needsPty a then wrapCommandWithPty d command else command)
      in if mergeStderr a then c1 @ '' 2>&1'' else c1)"

text \<open>
  \<^verbatim>\<open>runAgentForChat\<close> is modelled in four consecutive parts. The first runs from the
  entry of the function to the command that is ready to execute; it returns what the
  later parts need.
\<close>

record turn =
  t_agent :: agent
  t_threadKey :: string
  t_threadId :: "string option"
  t_turnCount :: nat
  t_includeFileInstructions :: bool
  t_promptWithContext :: string
  t_finalPrompt :: string
  t_commandToRun :: string

definition prepareTurn ::
  "deps \<Rightarrow> string \<Rightarrow> string \<Rightarrow> run_options \<Rightarrow> world \<Rightarrow> (js_error + turn) \<times> world" where
  \<open>prepareTurn d chatId prompt ro w =
     (let effectiveAgentId = resolveEffectiveAgentId d chatId (ro_topicId ro) (ro_agentId ro);
          a = getAgent d effectiveAgentId;
          (res, threads1) =
            injected_resolveThreadId d (w_threads w) chatId (ro_topicId ro) effectiveAgentId;
          turnCount = nextTurnCount (w_threadTurns w) (threadKey res);
          w1 = w\<lparr>w_threads := threads1,
                 w_threadTurns := (w_threadTurns w)(threadKey res \<mapsto> turnCount)\<rparr>;
          include = shouldIncludeFileInstructions (threadId res) turnCount
                      (fileInstructionsEvery d);
          w2 = (if migrated res
                then w1\<lparr>w_persistRequests := Suc (w_persistRequests w1)\<rparr> else w1);
          p0 = (if agent_id a = ''claude'' then prefixTextWithTimestamp d prompt else prompt);
          bootstrapped =
            (if \<not> truthy (threadId res)
             then (case buildBootstrapContext d (threadKey res) of
                     Inl e \<Rightarrow> Inl e
                   | Inr bootstrap \<Rightarrow>
                       Inr (if p0 \<noteq> [] then bootstrap @ [LF, LF] @ p0 else bootstrap))
             else Inr p0)
      in case bootstrapped of
           Inl e \<Rightarrow> (Inl e, w2)
         | Inr p1 \<Rightarrow>
             (case buildMemoryRetrievalContext d prompt chatId (ro_topicId ro)
                     effectiveAgentId of
                Inl e \<Rightarrow> (Inl e, w2)
              | Inr retrievalContext \<Rightarrow>
                  (let p2 = (if retrievalContext \<noteq> []
                             then joinBlocks p1 retrievalContext else p1);
                       finalPrompt =
                         buildPrompt d p2
                           (case ro_imagePaths ro of None \<Rightarrow> [] | Some ps \<Rightarrow> ps)
                           (ro_scriptContext ro)
                           (case ro_documentPaths ro of None \<Rightarrow> [] | Some ps \<Rightarrow> ps)
                           include;
                       promptBase64 = toBase64 d finalPrompt;
                       agentCmd =
                         buildCommand a
                           \<lparr>req_prompt = finalPrompt,
                            req_promptExpression = Some ''"$PROMPT"'',
                            req_threadId = threadId res,
                            req_thinking = getGlobalThinking d,
                            req_model = getGlobalModels d effectiveAgentId\<rparr>;
                       command =
                         joinWith '' ''
                           [''PROMPT_B64='' @ injected_shellQuote d promptBase64 @ '';'',
                            ''PROMPT=$(printf %s "$PROMPT_B64" | base64 --decode);'',
                            agentCmd]
                   in (Inr \<lparr>t_agent = a,
                            t_threadKey = threadKey res,
                            t_threadId = threadId res,
                            t_turnCount = turnCount,
                            t_includeFileInstructions = include,
                            t_promptWithContext = p2,
                            t_finalPrompt = finalPrompt,
                            t_commandToRun = decorateCommand d a command\<rparr>,
                       w2))))\<close>

text \<open>The call of the injected resolver with which a turn starts.\<close>

definition turnResolution :: "deps \<Rightarrow> string \<Rightarrow> run_options \<Rightarrow> world \<Rightarrow> resolved \<times> thread_map" where
  "turnResolution d chatId ro w =
     injected_resolveThreadId d (w_threads w) chatId (ro_topicId ro)
       (resolveEffectiveAgentId d chatId (ro_topicId ro) (ro_agentId ro))"

text \<open>
  The second part: the \<^verbatim>\<open>try\<close>/\<^verbatim>\<open>catch\<close> around \<^verbatim>\<open>execLocal\<close>, the parse, and the
  second throw. It returns the parsed output and the raw output it was parsed from.
\<close>

definition textOrEmpty :: "string option \<Rightarrow> string" where
  "textOrEmpty t = (case t of None \<Rightarrow> [] | Some s \<Rightarrow> s)"

definition executeTurn ::
  "deps \<Rightarrow> agent \<Rightarrow> string \<Rightarrow> world \<Rightarrow> (js_error + parsed_output \<times> string) \<times> world" where
  "executeTurn d a commandToRun w =
     (let w1 = w\<lparr>w_executed := w_executed w @ [commandToRun]\<rparr>
      in case execLocal d (w_executed w) commandToRun of
           Resolved output \<Rightarrow> (Inr (parseOutput a output, output), w1)
         | Rejected err \<Rightarrow>
             (case err_stdout err of
                None \<Rightarrow> (Inl err, w1)
              | Some stdout \<Rightarrow>
                  (if trim stdout = [] then (Inl err, w1)
                   else
                     (let parsed = parseOutput a stdout
                      in if \<not> out_sawJson parsed \<and> trim (textOrEmpty (out_text parsed)) = []
                         then (Inl err, w1)
                         else (Inr (parsed, stdout),
                               w1\<lparr>w_warnings := w_warnings w1 @ [ExitedNonZero err]\<rparr>)))))"

text \<open>The third part: the session-listing fallback inside its own \<^verbatim>\<open>try\<close>/\<^verbatim>\<open>catch\<close>.\<close>

definition recoverSessionId ::
  "deps \<Rightarrow> agent \<Rightarrow> parsed_output \<Rightarrow> world \<Rightarrow> parsed_output \<times> world" where
  "recoverSessionId d a parsed w =
     (if \<not> truthy (out_threadId parsed)
      then
        (case listSessionsCommand a of
           None \<Rightarrow> (parsed, w)
         | Some listCommand \<Rightarrow>
             (let listCommandToRun = decorateCommand d a listCommand;
                  w1 = w\<lparr>w_executed := w_executed w @ [listCommandToRun]\<rparr>
              in case execLocal d (w_executed w) listCommandToRun of
                   Rejected err \<Rightarrow>
                     (parsed, w1\<lparr>w_warnings := w_warnings w1 @ [SessionRecoveryFailed err]\<rparr>)
                 | Resolved listOutput \<Rightarrow>
                     (case parseSessionList a of
                        None \<Rightarrow> (parsed, w1)
                      | Some parseList \<Rightarrow>
                          (if truthy (parseList listOutput)
                           then (parsed\<lparr>out_threadId := parseList listOutput\<rparr>, w1)
                           else (parsed, w1)))))
      else (parsed, w))"

text \<open>The fourth part: the write into the thread map and the returned reply.\<close>

definition persistSessionId :: "string \<Rightarrow> parsed_output \<Rightarrow> world \<Rightarrow> world" where
  "persistSessionId key parsed w =
     (case out_threadId parsed of
        None \<Rightarrow> w
      | Some tid \<Rightarrow>
          (if tid \<noteq> []
           then w\<lparr>w_threads := (w_threads w)(key \<mapsto> tid),
                  w_persistRequests := Suc (w_persistRequests w)\<rparr>
           else w))"

definition replyText :: "parsed_output \<Rightarrow> string \<Rightarrow> string" where
  "replyText parsed output = (if truthy (out_text parsed) then textOrEmpty (out_text parsed) else output)"

definition runAgentForChat ::
  "deps \<Rightarrow> string \<Rightarrow> string \<Rightarrow> run_options \<Rightarrow> world \<Rightarrow> (js_error + string) \<times> world" where
  "runAgentForChat d chatId prompt ro w =
     (case prepareTurn d chatId prompt ro w of
        (Inl e, w1) \<Rightarrow> (Inl e, w1)
      | (Inr t, w1) \<Rightarrow>
          (case executeTurn d (t_agent t) (t_commandToRun t) w1 of
             (Inl e, w2) \<Rightarrow> (Inl e, w2)
           | (Inr (parsed, output), w2) \<Rightarrow>
               (let (parsed', w3) = recoverSessionId d (t_agent t) parsed w2;
                    w4 = persistSessionId (t_threadKey t) parsed' w3
                in (Inr (replyText parsed' output), w4))))"

section \<open>The per-key queue (\<^verbatim>\<open>services/queue.js\<close>)\<close>

text \<open>
  Modelled from the spec: \<^verbatim>\<open>createEnqueue\<close> of \<^verbatim>\<open>services/queue.js\<close> is not among the
  sources; only its callers are. The specification describes it as a chain of promises
  per key: the queue map holds, per key, a reference to the most recently chained task;
  \<^verbatim>\<open>enqueue(key, task)\<close> chains the task behind that reference (or behind nothing, when the
  key has no entry) and makes it the new reference; a task starts once the task it was
  chained to has settled, whether it completed or threw; when the referenced task
  settles, the entry of its key is dropped.

  Tasks are numbered in submission order. A task performs a number of effects one at a
  time, with any other activity in between, and then settles. The scheduler is free:
  every sequence of actions whose guards hold is a run.
\<close>

datatype qstatus = Waiting | Running | Completed | Failed

datatype qevent = Started nat | Effect nat | Settled nat

datatype qaction = Enqueue string nat bool | Start nat | Work nat | Finish nat

record qstate =
  q_count :: nat
  q_key :: "nat \<Rightarrow> string"
  q_prev :: "nat \<Rightarrow> nat option"
  q_status :: "nat \<Rightarrow> qstatus"
  q_work :: "nat \<Rightarrow> nat"
  q_throws :: "nat \<Rightarrow> bool"
  q_queues :: "string \<rightharpoonup> nat"
  q_trace :: "qevent list"

definition qinit :: qstate where
  "qinit =
     \<lparr>q_count = 0, q_key = (\<lambda>i. []), q_prev = (\<lambda>i. None), q_status = (\<lambda>i. Waiting),
      q_work = (\<lambda>i. 0), q_throws = (\<lambda>i. False), q_queues = Map.empty, q_trace = []\<rparr>"

definition settled :: "qstatus \<Rightarrow> bool" where
  "settled st = (st = Completed \<or> st = Failed)"

fun eventTask :: "qevent \<Rightarrow> nat" where
  "eventTask (Started i) = i"
| "eventTask (Effect i) = i"
| "eventTask (Settled i) = i"

text \<open>Modelled from the spec: \<^verbatim>\<open>enqueue(key, task)\<close> for a task of the given length and outcome.\<close>

definition enqueue :: "string \<Rightarrow> nat \<Rightarrow> bool \<Rightarrow> qstate \<Rightarrow> qstate" where
  "enqueue key work throws s =
     s\<lparr>q_count := Suc (q_count s),
       q_key := (q_key s)(q_count s := key),
       q_prev := (q_prev s)(q_count s := q_queues s key),
       q_status := (q_status s)(q_count s := Waiting),
       q_work := (q_work s)(q_count s := work),
       q_throws := (q_throws s)(q_count s := throws),
       q_queues := (q_queues s)(key \<mapsto> q_count s)\<rparr>"

text \<open>
  Modelled from the spec: the three things that happen to a chained task. It starts when
  what it was chained to has settled; it performs its next effect; after its last effect
  it settles, as failed if it throws, and the entry of its key is dropped if it still
  refers to this task.
\<close>

definition canStart :: "qstate \<Rightarrow> nat \<Rightarrow> bool" where
  "canStart s i =
     (i < q_count s \<and> q_status s i = Waiting
      \<and> (case q_prev s i of None \<Rightarrow> True | Some p \<Rightarrow> settled (q_status s p)))"

fun qstep :: "qaction \<Rightarrow> qstate \<Rightarrow> qstate option" where
  "qstep (Enqueue key work throws) s = Some (enqueue key work throws s)"
| "qstep (Start i) s =
     (if canStart s i
      then Some (s\<lparr>q_status := (q_status s)(i := Running), q_trace := q_trace s @ [Started i]\<rparr>)
      else None)"
| "qstep (Work i) s =
     (if i < q_count s \<and> q_status s i = Running \<and> 0 < q_work s i
      then Some (s\<lparr>q_work := (q_work s)(i := q_work s i - 1), q_trace := q_trace s @ [Effect i]\<rparr>)
      else None)"
| "qstep (Finish i) s =
     (if i < q_count s \<and> q_status s i = Running \<and> q_work s i = 0
      then Some (s\<lparr>q_status := (q_status s)(i := if q_throws s i then Failed else Completed),
                   q_queues := (if q_queues s (q_key s i) = Some i
                                then (q_queues s)(q_key s i := None) else q_queues s),
                   q_trace := q_trace s @ [Settled i]\<rparr>)
      else None)"

fun qrun :: "qaction list \<Rightarrow> qstate \<Rightarrow> qstate option" where
  "qrun [] s = Some s"
| "qrun (a # as) s = (case qstep a s of None \<Rightarrow> None | Some s' \<Rightarrow> qrun as s')"

text \<open>
  What holds in every state of a run: the chaining recorded at submission, the meaning of
  the queue map, the order of tasks under one key, and the agreement of the trace with
  the status of the tasks.
\<close>

definition chained :: "qstate \<Rightarrow> bool" where
  "chained s =
     (\<forall>j < q_count s.
        (q_prev s j = None \<longrightarrow>
           (\<forall>i < j. q_key s i = q_key s j \<longrightarrow> settled (q_status s i)))
        \<and> (\<forall>p. q_prev s j = Some p \<longrightarrow>
              p < j \<and> q_key s p = q_key s j
              \<and> (\<forall>i. p < i \<and> i < j \<longrightarrow> q_key s i \<noteq> q_key s j)))"

definition referenced :: "qstate \<Rightarrow> bool" where
  "referenced s =
     (\<forall>k. (q_queues s k = None \<longrightarrow>
              (\<forall>i < q_count s. q_key s i = k \<longrightarrow> settled (q_status s i)))
          \<and> (\<forall>p. q_queues s k = Some p \<longrightarrow>
                p < q_count s \<and> q_key s p = k
                \<and> (\<forall>i. p < i \<and> i < q_count s \<longrightarrow> q_key s i \<noteq> k)))"

definition serial :: "qstate \<Rightarrow> bool" where
  "serial s =
     (\<forall>i j. i < j \<and> j < q_count s \<and> q_key s i = q_key s j \<and> q_status s j \<noteq> Waiting
        \<longrightarrow> settled (q_status s i))"

definition traced :: "qstate \<Rightarrow> bool" where
  "traced s =
     ((\<forall>e \<in> set (q_trace s). eventTask e < q_count s)
      \<and> (\<forall>i < q_count s. (Started i \<in> set (q_trace s)) = (q_status s i \<noteq> Waiting))
      \<and> (\<forall>i < q_count s. (Settled i \<in> set (q_trace s)) = settled (q_status s i)))"

definition ordered :: "qstate \<Rightarrow> bool" where
  "ordered s =
     (\<forall>i j xs ys. i < j \<and> j < q_count s \<and> q_key s i = q_key s j
          \<and> q_trace s = xs @ Started j # ys
        \<longrightarrow> Settled i \<in> set xs \<and> (\<forall>e \<in> set ys. eventTask e \<noteq> i))"

definition qinv :: "qstate \<Rightarrow> bool" where
  "qinv s = (chained s \<and> referenced s \<and> serial s \<and> traced s \<and> ordered s)"

text \<open>
  Four sequences of actions: under one key a task of three effects and then a task of
  one effect, each run to its end; the same two tasks with the second started while the
  first runs; under one key a task that throws and the start of the next; under two keys
  two tasks started one after the other.
\<close>

definition longThenShort :: "qaction list" where
  "longThenShort =
     [Enqueue ''k'' 3 False, Enqueue ''k'' 1 False, Start 0, Work 0, Work 0, Work 0, Finish 0,
      Start 1, Work 1, Finish 1]"

definition startTooEarly :: "qaction list" where
  "startTooEarly = [Enqueue ''k'' 3 False, Enqueue ''k'' 1 False, Start 0, Start 1]"

definition failingThenNext :: "qaction list" where
  "failingThenNext =
     [Enqueue ''k'' 0 True, Enqueue ''k'' 1 False, Start 0, Finish 0, Start 1]"

definition twoKeys :: "qaction list" where
  "twoKeys = [Enqueue ''a'' 1 False, Enqueue ''b'' 1 False, Start 0, Start 1]"

section \<open>Concrete collaborators\<close>

text \<open>
  The runner and the parser take their collaborators as parameters. To run them on
  concrete inputs this section supplies some: a reader for JSON documents without
  fractions, exponents and \<^verbatim>\<open>\u\<close> escapes (it answers \<open>None\<close> on anything else), the
  base64 encoding of a string of 8-bit units (for an ASCII string, the encoding of its
  UTF-8 bytes), the codex functions above packaged as an adapter, and a runner
  configuration in the manner of the end-to-end test of the repository (bootstrap text
  \<^verbatim>\<open>BOOTSTRAP(key)\<close>, memory text \<^verbatim>\<open>MEMORY_CONTEXT\<close>, cadence 3).

  The JSON reader recurses along a list that serves as fuel; every call drops one
  element, and no chain of calls is longer than twice the text.
\<close>

definition isJsonSpace :: "char \<Rightarrow> bool" where
  "isJsonSpace c = (c = CHR 0x20 \<or> c = CHR 0x09 \<or> c = CHR 0x0A \<or> c = CHR 0x0D)"

definition skipSpace :: "string \<Rightarrow> string" where
  "skipSpace s = dropWhile isJsonSpace s"

definition unescape :: "char \<Rightarrow> char option" where
  "unescape e =
     (if e = DQ then Some DQ else if e = BS then Some BS else if e = CHR ''/'' then Some CHR ''/''
      else if e = CHR ''n'' then Some LF else if e = CHR ''r'' then Some CR
      else if e = CHR ''t'' then Some (CHR 0x09) else if e = CHR ''b'' then Some (CHR 0x08)
      else if e = CHR ''f'' then Some (CHR 0x0C) else None)"

fun parseChars :: "string \<Rightarrow> string \<Rightarrow> (string \<times> string) option" where
  "parseChars acc [] = None"
| "parseChars acc [c] = (if c = DQ then Some (acc, []) else None)"
| "parseChars acc (c # e # cs) =
     (if c = DQ then Some (acc, e # cs)
      else if c = BS
      then (case unescape e of None \<Rightarrow> None | Some x \<Rightarrow> parseChars (acc @ [x]) cs)
      else if of_char c < (32 :: nat) then None
      else parseChars (acc @ [c]) (e # cs))"

definition isDigit :: "char \<Rightarrow> bool" where
  "isDigit c = (48 \<le> (of_char c :: nat) \<and> (of_char c :: nat) \<le> 57)"

definition digitsValue :: "string \<Rightarrow> nat" where
  "digitsValue ds = foldl (\<lambda>n c. 10 * n + (of_char c - 48)) 0 ds"

definition parseNat :: "string \<Rightarrow> (nat \<times> string) option" where
  "parseNat s =
     (let ds = takeWhile isDigit s; rest = dropWhile isDigit s
      in if ds = [] \<or> (length ds > 1 \<and> hd ds = CHR ''0'') then None
         else if rest \<noteq> [] \<and> (hd rest = CHR ''.'' \<or> hd rest = CHR ''e'' \<or> hd rest = CHR ''E'')
         then None
         else Some (digitsValue ds, rest))"

fun parseValue :: "string \<Rightarrow> string \<Rightarrow> (json \<times> string) option"
  and parseMembers :: "string \<Rightarrow> (string \<times> json) list \<Rightarrow> string \<Rightarrow> (json \<times> string) option"
  and parseElements :: "string \<Rightarrow> json list \<Rightarrow> string \<Rightarrow> (json \<times> string) option" where
  "parseValue [] s = None"
| "parseValue (f # fuel) s =
     (case skipSpace s of
        [] \<Rightarrow> None
      | c # cs \<Rightarrow>
          (if c = CHR ''{''
           then (case skipSpace cs of
                   [] \<Rightarrow> None
                 | c' # cs' \<Rightarrow> if c' = CHR ''}'' then Some (JObject [], cs')
                              else parseMembers fuel [] (c' # cs'))
           else if c = CHR ''[''
           then (case skipSpace cs of
                   [] \<Rightarrow> None
                 | c' # cs' \<Rightarrow> if c' = CHR '']'' then Some (JArray [], cs')
                              else parseElements fuel [] (c' # cs'))
           else if c = DQ
           then (case parseChars [] cs of None \<Rightarrow> None | Some (str, rest) \<Rightarrow> Some (JString str, rest))
           else if c = CHR ''-''
           then (case parseNat cs of None \<Rightarrow> None | Some (n, rest) \<Rightarrow> Some (JNumber (- int n), rest))
           else if isDigit c
           then (case parseNat (c # cs) of None \<Rightarrow> None | Some (n, rest) \<Rightarrow> Some (JNumber (int n), rest))
           else if prefix ''true'' (c # cs) then Some (JBool True, drop 4 (c # cs))
           else if prefix ''false'' (c # cs) then Some (JBool False, drop 5 (c # cs))
           else if prefix ''null'' (c # cs) then Some (JNull, drop 4 (c # cs))
           else None))"
| "parseMembers [] acc s = None"
| "parseMembers (f # fuel) acc s =
     (case skipSpace s of
        [] \<Rightarrow> None
      | c # cs \<Rightarrow>
          (if c \<noteq> DQ then None
           else (case parseChars [] cs of
                   None \<Rightarrow> None
                 | Some (k, rest) \<Rightarrow>
                     (case skipSpace rest of
                        [] \<Rightarrow> None
                      | c1 # rest1 \<Rightarrow>
                          (if c1 \<noteq> CHR '':'' then None
                           else (case parseValue fuel rest1 of
                                   None \<Rightarrow> None
                                 | Some (v, rest2) \<Rightarrow>
                                     (case skipSpace rest2 of
                                        [] \<Rightarrow> None
                                      | c2 # rest3 \<Rightarrow>
                                          if c2 = CHR '','' then parseMembers fuel (acc @ [(k, v)]) rest3
                                          else if c2 = CHR ''}'' then Some (JObject (acc @ [(k, v)]), rest3)
                                          else None)))))))"
| "parseElements [] acc s = None"
| "parseElements (f # fuel) acc s =
     (case parseValue fuel s of
        None \<Rightarrow> None
      | Some (v, rest) \<Rightarrow>
          (case skipSpace rest of
             [] \<Rightarrow> None
           | c # rest1 \<Rightarrow>
               if c = CHR '','' then parseElements fuel (acc @ [v]) rest1
               else if c = CHR '']'' then Some (JArray (acc @ [v]), rest1)
               else None))"

definition JSON_parse_basic :: "string \<Rightarrow> json option" where
  "JSON_parse_basic s =
     (case parseValue (s @ s @ ''xx'') s of
        None \<Rightarrow> None
      | Some (v, rest) \<Rightarrow> if skipSpace rest = [] then Some v else None)"

definition b64char :: "nat \<Rightarrow> char" where
  "b64char n = ''ABCDEFGHIJKLMNOPQRSTUVWXYZabcdefghijklmnopqrstuvwxyz0123456789+/'' ! n"

fun base64 :: "nat list \<Rightarrow> string" where
  "base64 [] = []"
| "base64 [a] = [b64char (a div 4), b64char ((a mod 4) * 16), CHR ''='', CHR ''='']"
| "base64 [a, b] =
     [b64char (a div 4), b64char ((a mod 4) * 16 + b div 16), b64char ((b mod 16) * 4),
      CHR ''='']"
| "base64 (a # b # c # rest) =
     [b64char (a div 4), b64char ((a mod 4) * 16 + b div 16),
      b64char ((b mod 16) * 4 + c div 64), b64char (c mod 64)] @ base64 rest"

definition stringToBase64 :: "string \<Rightarrow> string" where
  "stringToBase64 s = base64 (map of_char s)"

text \<open>
  The codex adapter: \<open>buildAgentCommand\<close> and \<open>parseAgentOutput\<close> behind the adapter
  interface. A thread id that is not a string is dropped, since the thread map of the
  model holds strings.
\<close>

definition toParsedOutput :: "codex_output \<Rightarrow> parsed_output" where
  "toParsedOutput c =
     \<lparr>out_text = Some (co_text c),
      out_threadId = (case co_threadId c of Some (JString s) \<Rightarrow> Some s | _ \<Rightarrow> None),
      out_sawJson = co_sawJson c\<rparr>"

definition codexAgent :: agent where
  "codexAgent =
     \<lparr>agent_id = ''codex'', needsPty = False, mergeStderr = False,
      buildCommand =
        (\<lambda>r. buildAgentCommand (req_prompt r)
               \<lparr>opt_threadId = req_threadId r,
                opt_promptExpression = req_promptExpression r,
                opt_model = req_model r,
                opt_thinking = req_thinking r\<rparr>),
      parseOutput = (\<lambda>output. toParsedOutput (parseAgentOutput JSON_parse_basic output)),
      listSessionsCommand = None,
      parseSessionList = None\<rparr>"

text \<open>The same adapter with a session listing whose output is the session id itself.\<close>

definition listingAgent :: agent where
  "listingAgent =
     codexAgent\<lparr>listSessionsCommand := Some ''codex-sessions --latest'',
                parseSessionList := Some (\<lambda>listOutput. Some (trim listOutput))\<rparr>"

text \<open>
  The runner configuration. The thread store above knows no topic id; it is given the
  chat id and the agent id. \<open>buildPrompt\<close> marks a prompt that carries the file
  instructions with a trailing line.
\<close>

definition sampleDeps :: "(string list \<Rightarrow> string \<Rightarrow> exec_result) \<Rightarrow> agent \<Rightarrow> deps" where
  "sampleDeps exec a =
     \<lparr>buildBootstrapContext = (\<lambda>key. Inr (''BOOTSTRAP('' @ key @ '')'')),
      buildMemoryRetrievalContext = (\<lambda>query chatId topicId agentId. Inr ''MEMORY_CONTEXT''),
      buildPrompt =
        (\<lambda>p imagePaths scriptContext documentPaths includeFileInstructions.
            if includeFileInstructions then p @ [LF] @ ''FILE_INSTRUCTIONS'' else p),
      execLocal = exec,
      fileInstructionsEvery = 3,
      getAgent = (\<lambda>agentId. a),
      getGlobalModels = (\<lambda>agentId. None),
      getGlobalThinking = None,
      prefixTextWithTimestamp = (\<lambda>p. p),
      resolveEffectiveAgentId = (\<lambda>chatId topicId overrideAgentId. agent_id a),
      injected_resolveThreadId =
        (\<lambda>threads chatId topicId agentId. resolveThreadId threads chatId agentId),
      injected_shellQuote = shellQuote,
      toBase64 = stringToBase64,
      wrapCommandWithPty = (\<lambda>command. command)\<rparr>"

definition noRunOptions :: run_options where
  "noRunOptions =
     \<lparr>ro_topicId = None, ro_agentId = None, ro_imagePaths = None, ro_scriptContext = None,
      ro_documentPaths = None\<rparr>"

definition emptyWorld :: world where
  "emptyWorld =
     \<lparr>w_threads = Map.empty, w_threadTurns = Map.empty, w_persistRequests = 0,
      w_warnings = [], w_executed = []\<rparr>"

text \<open>
  A scripted \<open>execLocal\<close>: the n-th call of a run gets the n-th result of the script,
  whatever the command; calls beyond the script are rejected.
\<close>

definition execScript :: "exec_result list \<Rightarrow> string list \<Rightarrow> string \<Rightarrow> exec_result" where
  "execScript results history command =
     (if length history < length results then results ! length history
      else Rejected \<lparr>err_message = ''unexpected command'', err_stdout = None\<rparr>)"

text \<open>Output records as the codex CLI prints them, and errors that carry them.\<close>

definition threadStartedLine :: "string \<Rightarrow> string" where
  \<open>threadStartedLine tid = ''{"type":"thread.started","thread_id":"'' @ tid @ ''"}''\<close>

definition messageLine :: "string \<Rightarrow> string" where
  \<open>messageLine t = ''{"type":"item.completed","item":{"type":"message","text":"'' @ t @ ''"}}''\<close>

definition channelMessageLine :: "string \<Rightarrow> string \<Rightarrow> string" where
  \<open>channelMessageLine channel t =
     ''{"type":"item.completed","item":{"type":"message","channel":"'' @ channel
       @ ''","text":"'' @ t @ ''"}}''\<close>

definition firstTurnOutput :: string where
  "firstTurnOutput = threadStartedLine ''t1'' @ [LF] @ messageLine ''hi''"

definition softError :: js_error where
  "softError = \<lparr>err_message = ''Command failed'', err_stdout = Some (messageLine ''partial'')\<rparr>"

definition noiseError :: js_error where
  "noiseError = \<lparr>err_message = ''Command failed'', err_stdout = Some ''noise''\<rparr>"

definition hardError :: js_error where
  "hardError = \<lparr>err_message = ''Command failed'', err_stdout = None\<rparr>"

text \<open>
  Worlds: one in which chat 42 has the codex session \<open>t1\<close> and has seen \<open>n\<close> turns, and
  one that holds a session of chat 42 under the legacy key only.
\<close>

definition resumedWorld :: "nat \<Rightarrow> world" where
  "resumedWorld n =
     \<lparr>w_threads = [''42:codex'' \<mapsto> ''t1''], w_threadTurns = [''42:codex'' \<mapsto> n],
      w_persistRequests = 0, w_warnings = [], w_executed = []\<rparr>"

definition legacyWorld :: world where
  "legacyWorld =
     \<lparr>w_threads = [''42'' \<mapsto> ''t1''], w_threadTurns = Map.empty, w_persistRequests = 0,
      w_warnings = [], w_executed = []\<rparr>"

text \<open>The predicate of the specification: the standard output carried by an error is usable.\<close>

definition usableStdout :: "agent \<Rightarrow> js_error \<Rightarrow> bool" where
  "usableStdout a err =
     (case err_stdout err of
        None \<Rightarrow> False
      | Some stdout \<Rightarrow>
          trim stdout \<noteq> []
          \<and> (out_sawJson (parseOutput a stdout)
             \<or> trim (textOrEmpty (out_text (parseOutput a stdout))) \<noteq> []))"

section \<open>Reading a command line back\<close>

text \<open>
  The word splitting of a POSIX shell (token recognition and quote removal), for command
  lines made of blanks, plain characters, single quotes, double quotes and backslashes.
  Inside single quotes every character stands for itself. A backslash outside quotes
  keeps the next character and removes a following newline; inside double quotes it
  escapes only dollar, backquote, double quote, backslash and newline. Characters whose
  meaning the model does not interpret (operators, expansions, patterns, comments) stop
  the split with \<open>None\<close> when they are not quoted, and so do dollar and backquote inside
  double quotes, an open quote and a trailing backslash.
\<close>

datatype quoting = Unquoted | Escaped | Single | Double | DoubleEscaped

definition isBlank :: "char \<Rightarrow> bool" where
  "isBlank c = (c = CHR 0x20 \<or> c = CHR 0x09 \<or> c = CHR 0x0A)"

definition isShellSpecial :: "char \<Rightarrow> bool" where
  "isShellSpecial c = (c \<in> set ''|&;<>()$`*?[]#~=%!{}'')"

definition wordOf :: "string option \<Rightarrow> string" where
  "wordOf cur = (case cur of None \<Rightarrow> [] | Some w \<Rightarrow> w)"

fun posixSplitFrom :: "quoting \<Rightarrow> string option \<Rightarrow> string \<Rightarrow> string list option" where
  "posixSplitFrom q cur [] =
     (if q = Unquoted then Some (case cur of None \<Rightarrow> [] | Some w \<Rightarrow> [w]) else None)"
| "posixSplitFrom Unquoted cur (c # cs) =
     (if isBlank c
      then (case cur of
              None \<Rightarrow> posixSplitFrom Unquoted None cs
            | Some w \<Rightarrow> map_option ((#) w) (posixSplitFrom Unquoted None cs))
      else if c = SQ then posixSplitFrom Single (Some (wordOf cur)) cs
      else if c = DQ then posixSplitFrom Double (Some (wordOf cur)) cs
      else if c = BS then posixSplitFrom Escaped cur cs
      else if isShellSpecial c then None
      else posixSplitFrom Unquoted (Some (wordOf cur @ [c])) cs)"
| "posixSplitFrom Escaped cur (c # cs) =
     (if c = LF then posixSplitFrom Unquoted cur cs
      else posixSplitFrom Unquoted (Some (wordOf cur @ [c])) cs)"
| "posixSplitFrom Single cur (c # cs) =
     (if c = SQ then posixSplitFrom Unquoted cur cs
      else posixSplitFrom Single (Some (wordOf cur @ [c])) cs)"
| "posixSplitFrom Double cur (c # cs) =
     (if c = DQ then posixSplitFrom Unquoted cur cs
      else if c = BS then posixSplitFrom DoubleEscaped cur cs
      else if c = CHR ''$'' \<or> c = CHR ''`'' then None
      else posixSplitFrom Double (Some (wordOf cur @ [c])) cs)"
| "posixSplitFrom DoubleEscaped cur (c # cs) =
     (if c = CHR ''$'' \<or> c = CHR ''`'' \<or> c = DQ \<or> c = BS
      then posixSplitFrom Double (Some (wordOf cur @ [c])) cs
      else if c = LF then posixSplitFrom Double cur cs
      else posixSplitFrom Double (Some (wordOf cur @ [BS, c])) cs)"

declare posixSplitFrom.simps [simp del]

definition posixSplit :: "string \<Rightarrow> string list option" where
  "posixSplit commandLine = posixSplitFrom Unquoted None commandLine"

text \<open>
  The messages of a stream in the words of the specification: the text a well-formed
  record contributes (one text if it is a completed item that is truthy, has a string
  \<^verbatim>\<open>text\<close> and a type that mentions \<^verbatim>\<open>message\<close>; none otherwise), and the texts a
  line contributes.
\<close>

definition messageOf :: "json \<Rightarrow> string list" where
  "messageOf payload =
     (if member payload ''type'' = Some (JString ''item.completed'')
      then (case member payload ''item'' of
              None \<Rightarrow> []
            | Some item \<Rightarrow>
                (if jsTruthy (Some item)
                 then (case member item ''text'' of
                         Some (JString t) \<Rightarrow>
                           if includesStr (itemTypeOf item) ''message'' then [t] else []
                       | _ \<Rightarrow> [])
                 else []))
      else [])"

definition lineMessages :: "(string \<Rightarrow> json option) \<Rightarrow> string \<Rightarrow> string list" where
  "lineMessages JSON_parse l =
     (if startsWith l ''{''
      then (case JSON_parse l of None \<Rightarrow> [] | Some payload \<Rightarrow> messageOf payload)
      else [])"

text \<open>A stream of four lines: noise, a thread record and two message records.\<close>

definition sampleStream :: "string list" where
  "sampleStream =
     [''noise'', threadStartedLine ''t1'', messageLine ''one'', channelMessageLine ''final'' ''two'']"

text \<open>
  The same four lines sent with CR LF line ends, and a single message whose text has a
  space on either side.
\<close>

definition crlfStream :: string where
  "crlfStream = joinWith [CR, LF] sampleStream"

definition paddedMessage :: string where
  "paddedMessage = messageLine '' hi ''"

text \<open>
  A record read as if it carried no channel marker: the members named \<^verbatim>\<open>channel\<close> are
  removed from the record and from its item.
\<close>

fun dropChannel :: "json \<Rightarrow> json" where
  "dropChannel (JObject kvs) = JObject (filter (\<lambda>kv. fst kv \<noteq> ''channel'') kvs)"
| "dropChannel v = v"

fun eraseChannel :: "json \<Rightarrow> json" where
  "eraseChannel (JObject kvs) =
     JObject (map (\<lambda>kv. if fst kv = ''item'' then (fst kv, dropChannel (snd kv)) else kv)
        (filter (\<lambda>kv. fst kv \<noteq> ''channel'') kvs))"
| "eraseChannel v = v"

text \<open>A character that is a plain part of a word for the shell.\<close>

definition plainChar :: "char \<Rightarrow> bool" where
  "plainChar c = (\<not> isBlank c \<and> c \<noteq> SQ \<and> c \<noteq> DQ \<and> c \<noteq> BS \<and> \<not> isShellSpecial c)"

text \<open>
  The shape of the codex command line in the words of the specification: the text an
  optional flag contributes, the resume clause, and the words both stand for.
\<close>

definition optionalFlag :: "string \<Rightarrow> string option \<Rightarrow> string" where
  "optionalFlag flag v =
     (case v of
        None \<Rightarrow> []
      | Some x \<Rightarrow> if x \<noteq> [] then '' '' @ flag @ '' '' @ shellQuote x else [])"

definition resumeClause :: "string option \<Rightarrow> string" where
  "resumeClause tid =
     (case tid of
        None \<Rightarrow> []
      | Some t \<Rightarrow> if t \<noteq> [] then ''resume '' @ shellQuote t @ '' '' else [])"

definition flagWords :: "string \<Rightarrow> string option \<Rightarrow> string list" where
  "flagWords flag v =
     (case v of None \<Rightarrow> [] | Some x \<Rightarrow> if x \<noteq> [] then [flag, x] else [])"

definition resumeWords :: "string option \<Rightarrow> string list" where
  "resumeWords tid =
     (case tid of None \<Rightarrow> [] | Some t \<Rightarrow> if t \<noteq> [] then [''resume'', t] else [])"

text \<open>
  Inputs for the command builder: a prompt with a single quote, double quotes, spaces and
  a backslash (\<^verbatim>\<open>it's a "b\c"\<close>), the empty options, a full set of options, and the
  options of the repository's test of the model and thinking flags.
\<close>

definition trickyPrompt :: string where
  "trickyPrompt = ''it'' @ [SQ] @ ''s a '' @ [DQ] @ ''b'' @ [BS] @ ''c'' @ [DQ]"

definition noOptions :: options where
  "noOptions =
     \<lparr>opt_threadId = None, opt_promptExpression = None, opt_model = None, opt_thinking = None\<rparr>"

definition fullOptions :: options where
  "fullOptions =
     \<lparr>opt_threadId = Some ''t-123'', opt_promptExpression = None, opt_model = Some ''gpt-5.2'',
      opt_thinking = Some ''medium''\<rparr>"

definition testOptions :: options where
  "testOptions =
     \<lparr>opt_threadId = None, opt_promptExpression = None, opt_model = Some ''gpt-5.2'',
      opt_thinking = Some ''medium''\<rparr>"

section \<open>Evaluation on concrete inputs\<close>

text \<open>
  The definitions that the simplifier unfolds to run the parser, the JSON reader and
  \<open>trim\<close> on a concrete string.
\<close>

lemmas char_defs = SQ_def DQ_def BS_def LF_def CR_def

lemmas json_defs = JSON_parse_basic_def skipSpace_def isJsonSpace_def isDigit_def parseNat_def
  digitsValue_def unescape_def

lemmas codex_defs = parseAgentOutput_def parseCodexJsonOutput_def splitLines_def scanLine_def
  scanPayload_def scanStart_def itemTypeOf_def startsWith_def toParsedOutput_def

lemmas trim_defs = trim_def trimStart_def trimEnd_def isWhiteSpace_def

lemma parse_partial: "parseOutput codexAgent (messageLine ''partial'')
   = \<lparr>out_text = Some ''partial'', out_threadId = None, out_sawJson = True\<rparr>"
  by (simp add: codexAgent_def messageLine_def char_defs json_defs codex_defs trim_defs Let_def)

lemma parse_noise: "parseOutput codexAgent ''noise''
   = \<lparr>out_text = Some [], out_threadId = None, out_sawJson = False\<rparr>"
  by (simp add: codexAgent_def char_defs json_defs codex_defs trim_defs Let_def)

lemma parse_hi: "parseOutput codexAgent (messageLine ''hi'')
   = \<lparr>out_text = Some ''hi'', out_threadId = None, out_sawJson = True\<rparr>"
  by (simp add: codexAgent_def messageLine_def char_defs json_defs codex_defs trim_defs Let_def)

lemma parse_started_hi:
  "parseOutput codexAgent firstTurnOutput
   = \<lparr>out_text = Some ''hi'', out_threadId = Some ''t1'', out_sawJson = True\<rparr>"
  by (simp add: codexAgent_def firstTurnOutput_def messageLine_def threadStartedLine_def char_defs json_defs
      codex_defs trim_defs Let_def)

lemma listingAgent_fields:
  "agent_id listingAgent = ''codex''"
  "parseOutput listingAgent = parseOutput codexAgent"
  "listSessionsCommand listingAgent = Some ''codex-sessions --latest''"
  "parseSessionList listingAgent = Some (\<lambda>listOutput. Some (trim listOutput))"
  "needsPty listingAgent = False" "mergeStderr listingAgent = False"
  by (simp_all add: listingAgent_def codexAgent_def)

section \<open>Properties of the command builder\<close>

subsection \<open>The shape of the command\<close>

lemma trim_noop:
  assumes "s \<noteq> []" "\<not> isWhiteSpace (hd s)" "\<not> isWhiteSpace (last s)"
  shows "trim s = s"
proof -
  from assms have a: "dropWhile isWhiteSpace s = s"
    by (cases s) simp_all
  from assms have "rev s \<noteq> []" "\<not> isWhiteSpace (hd (rev s))"
    by (simp_all add: hd_rev)
  then have "dropWhile isWhiteSpace (rev s) = rev s"
    by (cases "rev s") simp_all
  with a show ?thesis by (simp add: trim_def trimStart_def trimEnd_def)
qed

lemma shellQuote_last: "last (xs @ shellQuote v) = SQ"
  by (simp add: shellQuote_def)

lemma SQ_not_space: "\<not> isWhiteSpace SQ"
  by (simp add: isWhiteSpace_def SQ_def)

lemma appendOptionalArg_shape:
  assumes "args \<noteq> []" "\<not> isWhiteSpace (hd args)" "flag \<noteq> []"
  shows "appendOptionalArg args flag v = args @ optionalFlag flag v"
proof (cases v)
  case None
  then show ?thesis by (simp add: appendOptionalArg_def optionalFlag_def)
next
  case (Some x)
  show ?thesis
  proof (cases "x = []")
    case True
    with Some show ?thesis by (simp add: appendOptionalArg_def optionalFlag_def)
  next
    case False
    have "trim (args @ '' '' @ flag @ '' '' @ shellQuote x) = args @ '' '' @ flag @ '' '' @ shellQuote x"
    proof (rule trim_noop)
      show "args @ '' '' @ flag @ '' '' @ shellQuote x \<noteq> []" using assms by simp
      show "\<not> isWhiteSpace (hd (args @ '' '' @ flag @ '' '' @ shellQuote x))" using assms by simp
      have "last (args @ '' '' @ flag @ '' '' @ shellQuote x) = SQ"
        using shellQuote_last [of "args @ '' '' @ flag @ '' ''" x] by simp
      then show "\<not> isWhiteSpace (last (args @ '' '' @ flag @ '' '' @ shellQuote x))"
        by (simp add: SQ_not_space)
    qed
    with Some False assms show ?thesis by (simp add: appendOptionalArg_def optionalFlag_def)
  qed
qed

lemma buildAgentCommand_shape:
  "buildAgentCommand prompt opts
     = trim (''codex exec '' @ resumeClause (opt_threadId opts) @ ''--json --skip-git-repo-check''
             @ optionalFlag ''--model'' (opt_model opts)
             @ optionalFlag ''--thinking'' (opt_thinking opts)
             @ '' '' @ resolvePromptValue prompt (opt_promptExpression opts))"
proof -
  have a1: "appendOptionalArg BASE_ARGS MODEL_ARG (opt_model opts)
      = BASE_ARGS @ optionalFlag MODEL_ARG (opt_model opts)"
    by (rule appendOptionalArg_shape) (simp_all add: BASE_ARGS_def MODEL_ARG_def isWhiteSpace_def)
  have a2: "appendOptionalArg (BASE_ARGS @ optionalFlag MODEL_ARG (opt_model opts)) THINKING_ARG
        (opt_thinking opts)
      = BASE_ARGS @ optionalFlag MODEL_ARG (opt_model opts)
          @ optionalFlag THINKING_ARG (opt_thinking opts)"
    using appendOptionalArg_shape [of "BASE_ARGS @ optionalFlag MODEL_ARG (opt_model opts)"
        THINKING_ARG "opt_thinking opts"]
    by (simp add: BASE_ARGS_def THINKING_ARG_def isWhiteSpace_def)
  show ?thesis
    unfolding buildAgentCommand_def Let_def a1 a2
    by (simp add: resumeClause_def CODEX_CMD_def BASE_ARGS_def MODEL_ARG_def THINKING_ARG_def
        split: option.splits)
qed

lemma trim_keeps_front:
  assumes "A \<noteq> []" "\<not> isWhiteSpace (hd A)" "\<not> isWhiteSpace (last A)"
  shows "trim (A @ B) = A @ trimEnd B"
proof -
  from assms have front: "dropWhile isWhiteSpace (A @ B) = A @ B"
    by (cases A) simp_all
  have tail_eq: "dropWhile isWhiteSpace (rev B @ rev A) = dropWhile isWhiteSpace (rev B) @ rev A"
  proof (cases "\<forall>c \<in> set (rev B). isWhiteSpace c")
    case True
    from assms have "rev A \<noteq> []" "\<not> isWhiteSpace (hd (rev A))" by (simp_all add: hd_rev)
    then have keep: "dropWhile isWhiteSpace (rev A) = rev A" by (cases "rev A") simp_all
    from True have all: "\<And>c. c \<in> set (rev B) \<Longrightarrow> isWhiteSpace c" by blast
    have "dropWhile isWhiteSpace (rev B @ rev A) = dropWhile isWhiteSpace (rev A)"
      by (rule dropWhile_append2) (rule all)
    moreover have "dropWhile isWhiteSpace (rev B) = []"
      using all by (simp add: dropWhile_eq_Nil_conv)
    ultimately show ?thesis by (simp add: keep)
  next
    case False
    then obtain c where "c \<in> set (rev B)" "\<not> isWhiteSpace c" by blast
    then show ?thesis by (rule dropWhile_append1)
  qed
  show ?thesis
    by (simp add: trim_def trimStart_def trimEnd_def front tail_eq)
qed

lemma optionalFlag_last:
  "X \<noteq> [] \<Longrightarrow> \<not> isWhiteSpace (last X) \<Longrightarrow> \<not> isWhiteSpace (last (X @ optionalFlag flag v))"
  by (cases v) (simp_all add: optionalFlag_def shellQuote_def isWhiteSpace_def SQ_def)

lemma resumeClause_flags_last:
  "\<not> isWhiteSpace (last (''codex exec '' @ resumeClause tid @ ''--json --skip-git-repo-check''
        @ optionalFlag f1 v1 @ optionalFlag f2 v2))"
proof -
  let ?X = "''codex exec '' @ resumeClause tid @ ''--json --skip-git-repo-check''"
  have a: "?X \<noteq> []" by simp
  have b: "\<not> isWhiteSpace (last ?X)" by (simp add: isWhiteSpace_def)
  have c: "?X @ optionalFlag f1 v1 \<noteq> []" by simp
  have d: "\<not> isWhiteSpace (last (?X @ optionalFlag f1 v1))"
    by (rule optionalFlag_last [OF a b])
  have "\<not> isWhiteSpace (last ((?X @ optionalFlag f1 v1) @ optionalFlag f2 v2))"
    by (rule optionalFlag_last [OF c d])
  then show ?thesis by simp
qed

lemma buildAgentCommand_shape2:
  "buildAgentCommand prompt opts
     = ''codex exec '' @ resumeClause (opt_threadId opts) @ ''--json --skip-git-repo-check''
       @ optionalFlag ''--model'' (opt_model opts)
       @ optionalFlag ''--thinking'' (opt_thinking opts)
       @ trimEnd ('' '' @ resolvePromptValue prompt (opt_promptExpression opts))"
proof -
  let ?A = "''codex exec '' @ resumeClause (opt_threadId opts) @ ''--json --skip-git-repo-check''
       @ optionalFlag ''--model'' (opt_model opts) @ optionalFlag ''--thinking'' (opt_thinking opts)"
  let ?B = "'' '' @ resolvePromptValue prompt (opt_promptExpression opts)"
  have "trim (?A @ ?B) = ?A @ trimEnd ?B"
  proof (rule trim_keeps_front)
    show "?A \<noteq> []" by simp
    show "\<not> isWhiteSpace (hd ?A)" by (simp add: isWhiteSpace_def)
    show "\<not> isWhiteSpace (last ?A)" by (rule resumeClause_flags_last)
  qed
  then show ?thesis by (simp add: buildAgentCommand_shape)
qed

lemma trimEnd_shellQuote: "trimEnd ('' '' @ shellQuote p) = '' '' @ shellQuote p"
  by (simp add: trimEnd_def shellQuote_def isWhiteSpace_def SQ_def)

text \<open>
  The test of the repository: \<^verbatim>\<open>shellQuote("abc'def")\<close> is \<^verbatim>\<open>'abc'\''def'\<close>.
\<close>

lemma shellQuote_test: "shellQuote (''abc'' @ [SQ] @ ''def'') = [SQ] @ ''abc'' @ [SQ, BS, SQ, SQ] @ ''def'' @ [SQ]"
  by (simp add: shellQuote_def escapeQuote_def SQ_def)

subsection \<open>Splitting the command\<close>

lemma split_plain:
  "\<forall>c \<in> set w. plainChar c \<Longrightarrow> w \<noteq> [] \<Longrightarrow>
     posixSplitFrom Unquoted cur (w @ rest) = posixSplitFrom Unquoted (Some (wordOf cur @ w)) rest"
proof (induction w arbitrary: cur)
  case Nil
  then show ?case by simp
next
  case (Cons c w)
  show ?case
  proof (cases "w = []")
    case True
    with Cons.prems show ?thesis by (simp add: plainChar_def posixSplitFrom.simps)
  next
    case False
    with Cons show ?thesis by (simp add: plainChar_def wordOf_def posixSplitFrom.simps)
  qed
qed

lemma split_single_quoted:
  "posixSplitFrom Single (Some w) (concat (map escapeQuote s) @ SQ # rest)
     = posixSplitFrom Unquoted (Some (w @ s)) rest"
proof (induction s arbitrary: w)
  case Nil
  then show ?case by (simp add: posixSplitFrom.simps)
next
  case (Cons c s)
  show ?case
  proof (cases "c = SQ")
    case True
    have "SQ \<noteq> LF" "BS \<noteq> SQ" "BS \<noteq> DQ" "\<not> isBlank BS" "\<not> isBlank SQ"
      by (simp_all add: SQ_def LF_def BS_def DQ_def isBlank_def)
    with True Cons.IH [of "w @ [SQ]"] show ?thesis
      by (simp add: escapeQuote_def wordOf_def posixSplitFrom.simps)
  next
    case False
    with Cons.IH [of "w @ [c]"] show ?thesis
      by (simp add: escapeQuote_def wordOf_def posixSplitFrom.simps)
  qed
qed

lemma split_shellQuote:
  "posixSplitFrom Unquoted cur (shellQuote s @ rest)
     = posixSplitFrom Unquoted (Some (wordOf cur @ s)) rest"
proof -
  have "\<not> isBlank SQ" by (simp add: isBlank_def SQ_def)
  then show ?thesis
    by (simp add: shellQuote_def split_single_quoted posixSplitFrom.simps)
qed

lemma split_blank:
  "posixSplitFrom Unquoted (Some w) (CHR '' '' # rest)
     = map_option ((#) w) (posixSplitFrom Unquoted None rest)"
  by (simp add: isBlank_def posixSplitFrom.simps)

lemma split_plain_word:
  assumes "\<forall>c \<in> set w. plainChar c" "w \<noteq> []"
  shows "posixSplitFrom Unquoted None (w @ CHR '' '' # rest)
     = map_option ((#) w) (posixSplitFrom Unquoted None rest)"
  using split_plain [OF assms, of None "CHR '' '' # rest"]
  by (simp add: wordOf_def isBlank_def posixSplitFrom.simps)

lemma split_quoted_word:
  "posixSplitFrom Unquoted None (shellQuote s @ CHR '' '' # rest)
     = map_option ((#) s) (posixSplitFrom Unquoted None rest)"
  using split_shellQuote [of None s "CHR '' '' # rest"]
  by (simp add: wordOf_def isBlank_def posixSplitFrom.simps)

lemma split_quoted_last:
  "posixSplitFrom Unquoted (Some y) (CHR '' '' # shellQuote p) = Some [y, p]"
  using split_shellQuote [of None p "[]"]
  by (simp add: split_blank wordOf_def posixSplitFrom.simps(1))

lemma split_optional:
  assumes flag: "\<forall>c \<in> set flag. plainChar c" "flag \<noteq> []"
    and rest: "\<And>y. posixSplitFrom Unquoted (Some y) rest = Some (y # ws)"
  shows "posixSplitFrom Unquoted (Some w) (optionalFlag flag v @ rest)
     = Some (w # flagWords flag v @ ws)"
proof (cases "truthy v")
  case False
  then have "optionalFlag flag v = []" "flagWords flag v = []"
    by (cases v; simp add: optionalFlag_def flagWords_def)+
  then show ?thesis by (simp add: rest)
next
  case True
  then obtain x where v: "v = Some x" "x \<noteq> []" by (cases v) simp_all
  have "posixSplitFrom Unquoted (Some w) (CHR '' '' # flag @ CHR '' '' # shellQuote x @ rest)
      = map_option ((#) w) (map_option ((#) flag) (posixSplitFrom Unquoted (Some x) rest))"
  proof -
    have q: "posixSplitFrom Unquoted None (shellQuote x @ rest)
        = posixSplitFrom Unquoted (Some x) rest"
      using split_shellQuote [of None x rest] by (simp add: wordOf_def)
    show ?thesis
      by (simp only: split_blank split_plain_word [OF flag] q)
  qed
  with v show ?thesis
    by (simp add: optionalFlag_def flagWords_def rest)
qed

lemma split_resume:
  assumes rest: "posixSplitFrom Unquoted None rest = Some ws"
  shows "posixSplitFrom Unquoted None (resumeClause tid @ rest) = Some (resumeWords tid @ ws)"
proof (cases "truthy tid")
  case False
  then have "resumeClause tid = []" "resumeWords tid = []"
    by (cases tid; simp add: resumeClause_def resumeWords_def)+
  then show ?thesis by (simp add: rest)
next
  case True
  then obtain t where t: "tid = Some t" "t \<noteq> []" by (cases tid) simp_all
  have plain: "\<forall>c \<in> set ''resume''. plainChar c" "''resume'' \<noteq> []"
    by (simp_all add: plainChar_def isBlank_def isShellSpecial_def SQ_def DQ_def BS_def)
  have "posixSplitFrom Unquoted None (''resume'' @ CHR '' '' # shellQuote t @ CHR '' '' # rest)
      = Some (''resume'' # t # ws)"
    by (simp only: split_plain_word [OF plain] split_quoted_word rest) simp
  with t show ?thesis by (simp add: resumeClause_def resumeWords_def)
qed

lemma plain_flags:
  "\<forall>c \<in> set ''--model''. plainChar c" "\<forall>c \<in> set ''--thinking''. plainChar c"
  by (simp_all add: plainChar_def isBlank_def isShellSpecial_def SQ_def DQ_def BS_def)

lemma split_codex_command:
  "posixSplit (''codex exec '' @ resumeClause tid @ ''--json --skip-git-repo-check''
               @ optionalFlag ''--model'' m @ optionalFlag ''--thinking'' th
               @ '' '' @ shellQuote p)
     = Some ([''codex'', ''exec''] @ resumeWords tid @ [''--json'', ''--skip-git-repo-check'']
             @ flagWords ''--model'' m @ flagWords ''--thinking'' th @ [p])"
proof -
  let ?tail = "optionalFlag ''--model'' m @ optionalFlag ''--thinking'' th
                 @ CHR '' '' # shellQuote p"
  have s1: "posixSplitFrom Unquoted (Some y)
              (optionalFlag ''--thinking'' th @ CHR '' '' # shellQuote p)
      = Some (y # flagWords ''--thinking'' th @ [p])" for y
    by (rule split_optional [OF plain_flags(2) _ split_quoted_last]) simp
  have s2: "posixSplitFrom Unquoted (Some y) ?tail
      = Some (y # flagWords ''--model'' m @ flagWords ''--thinking'' th @ [p])" for y
    by (rule split_optional [OF plain_flags(1) _ s1]) simp
  have base: "posixSplitFrom Unquoted None (''--json --skip-git-repo-check'' @ ?tail)
      = Some ([''--json'', ''--skip-git-repo-check'']
              @ flagWords ''--model'' m @ flagWords ''--thinking'' th @ [p])"
    by (simp add: isBlank_def isShellSpecial_def SQ_def DQ_def BS_def wordOf_def
        posixSplitFrom.simps s2 [unfolded SQ_def DQ_def BS_def])
  have head: "posixSplitFrom Unquoted None (''codex exec '' @ X)
      = map_option (\<lambda>ws. ''codex'' # ''exec'' # ws) (posixSplitFrom Unquoted None X)" for X
    by (simp add: isBlank_def isShellSpecial_def SQ_def DQ_def BS_def wordOf_def
        posixSplitFrom.simps option.map_comp comp_def)
  have "posixSplit (''codex exec '' @ resumeClause tid @ ''--json --skip-git-repo-check''
               @ optionalFlag ''--model'' m @ optionalFlag ''--thinking'' th
               @ '' '' @ shellQuote p)
      = posixSplitFrom Unquoted None
          (''codex exec '' @ (resumeClause tid @ (''--json --skip-git-repo-check'' @ ?tail)))"
    by (simp add: posixSplit_def)
  also have "\<dots> = map_option (\<lambda>ws. ''codex'' # ''exec'' # ws)
      (posixSplitFrom Unquoted None (resumeClause tid @ (''--json --skip-git-repo-check'' @ ?tail)))"
    by (rule head)
  also have "\<dots> = Some ([''codex'', ''exec''] @ resumeWords tid
             @ [''--json'', ''--skip-git-repo-check'']
             @ flagWords ''--model'' m @ flagWords ''--thinking'' th @ [p])"
    by (simp only: split_resume [OF base]) simp
  finally show ?thesis .
qed

text \<open>
  Claim C5. \<open>shellQuote\<close> puts the value between single quotes with every single quote
  of the value replaced by the four characters quote, backslash, quote, quote; a POSIX
  shell splits the result into exactly one word, the value itself. When no prompt
  expression is given, the command of \<open>buildAgentCommand\<close> splits into the fixed words,
  the thread id, model and thinking level that were given, and as last word the prompt,
  whatever characters the prompt contains.
\<close>

theorem shellQuote_round_trip:
  "shellQuote s = [SQ] @ concat (map (\<lambda>c. if c = SQ then [SQ, BS, SQ, SQ] else [c]) s) @ [SQ]
   \<and> posixSplit (shellQuote s) = Some [s]
   \<and> (\<not> truthy (opt_promptExpression opts) \<longrightarrow>
        posixSplit (buildAgentCommand prompt opts)
          = Some ([''codex'', ''exec''] @ resumeWords (opt_threadId opts)
                  @ [''--json'', ''--skip-git-repo-check'']
                  @ flagWords ''--model'' (opt_model opts)
                  @ flagWords ''--thinking'' (opt_thinking opts) @ [prompt]))"
proof (intro conjI impI)
  have "escapeQuote = (\<lambda>c. if c = SQ then [SQ, BS, SQ, SQ] else [c])"
    by (simp add: fun_eq_iff escapeQuote_def)
  then show "shellQuote s = [SQ] @ concat (map (\<lambda>c. if c = SQ then [SQ, BS, SQ, SQ] else [c]) s) @ [SQ]"
    by (simp add: shellQuote_def)
  show "posixSplit (shellQuote s) = Some [s]"
    using split_shellQuote [of None s "[]"]
    by (simp add: posixSplit_def wordOf_def posixSplitFrom.simps(1))
  assume "\<not> truthy (opt_promptExpression opts)"
  then have "resolvePromptValue prompt (opt_promptExpression opts) = shellQuote prompt"
    by (cases "opt_promptExpression opts") (simp_all add: resolvePromptValue_def)
  then have "buildAgentCommand prompt opts
      = ''codex exec '' @ resumeClause (opt_threadId opts) @ ''--json --skip-git-repo-check''
        @ optionalFlag ''--model'' (opt_model opts) @ optionalFlag ''--thinking'' (opt_thinking opts)
        @ '' '' @ shellQuote prompt"
    by (simp only: buildAgentCommand_shape2 trimEnd_shellQuote)
  then show "posixSplit (buildAgentCommand prompt opts)
          = Some ([''codex'', ''exec''] @ resumeWords (opt_threadId opts)
                  @ [''--json'', ''--skip-git-repo-check'']
                  @ flagWords ''--model'' (opt_model opts)
                  @ flagWords ''--thinking'' (opt_thinking opts) @ [prompt])"
    by (simp only: split_codex_command)
qed

text \<open>
  Claim C5 on the prompt \<^verbatim>\<open>it's a "b\c"\<close>, without options and with all of them.
\<close>

theorem shellQuote_round_trip_witness:
  "\<not> truthy (opt_promptExpression noOptions) \<and> \<not> truthy (opt_promptExpression fullOptions)
   \<and> posixSplit (shellQuote trickyPrompt) = Some [trickyPrompt]
   \<and> posixSplit (buildAgentCommand trickyPrompt noOptions)
       = Some [''codex'', ''exec'', ''--json'', ''--skip-git-repo-check'', trickyPrompt]
   \<and> posixSplit (buildAgentCommand trickyPrompt fullOptions)
       = Some [''codex'', ''exec'', ''resume'', ''t-123'', ''--json'', ''--skip-git-repo-check'',
               ''--model'', ''gpt-5.2'', ''--thinking'', ''medium'', trickyPrompt]"
  using shellQuote_round_trip [of trickyPrompt noOptions trickyPrompt]
    shellQuote_round_trip [of trickyPrompt fullOptions trickyPrompt]
  by (simp add: noOptions_def fullOptions_def resumeWords_def flagWords_def)

text \<open>
  Claim C8, as amended. The command is the fixed text \<^verbatim>\<open>codex exec\<close>, the resume clause,
  the base arguments, the model flag, the thinking flag and the prompt value, in this
  order; a thinking level \<open>t\<close> that is given contributes \<^verbatim>\<open> --thinking 't'\<close> and a model
  \<open>m\<close> that is given contributes \<^verbatim>\<open> --model 'm'\<close>, both quoted by \<open>shellQuote\<close>; one
  that is not given contributes nothing.
\<close>

theorem thinking_and_model_flags:
  "buildAgentCommand prompt opts
     = ''codex exec '' @ resumeClause (opt_threadId opts) @ ''--json --skip-git-repo-check''
       @ optionalFlag ''--model'' (opt_model opts)
       @ optionalFlag ''--thinking'' (opt_thinking opts)
       @ trimEnd ('' '' @ resolvePromptValue prompt (opt_promptExpression opts))
   \<and> (\<forall>t. t \<noteq> [] \<longrightarrow> optionalFlag ''--thinking'' (Some t) = '' --thinking '' @ shellQuote t)
   \<and> (\<forall>m. m \<noteq> [] \<longrightarrow> optionalFlag ''--model'' (Some m) = '' --model '' @ shellQuote m)
   \<and> optionalFlag ''--thinking'' None = [] \<and> optionalFlag ''--model'' None = []"
  by (simp add: buildAgentCommand_shape2 optionalFlag_def)

text \<open>
  Claim C8 on the input of the repository's test: prompt \<^verbatim>\<open>ping\<close>, model \<^verbatim>\<open>gpt-5.2\<close>,
  thinking level \<^verbatim>\<open>medium\<close>.
\<close>

theorem thinking_and_model_flags_witness:
  "buildAgentCommand ''ping'' testOptions
     = ''codex exec --json --skip-git-repo-check --model '' @ [SQ] @ ''gpt-5.2'' @ [SQ]
       @ '' --thinking '' @ [SQ] @ ''medium'' @ [SQ] @ '' '' @ [SQ] @ ''ping'' @ [SQ]"
  using thinking_and_model_flags [of "''ping''" testOptions]
  by (simp add: testOptions_def resumeClause_def resolvePromptValue_def trimEnd_shellQuote [simplified])
     (simp add: shellQuote_def escapeQuote_def SQ_def)

text \<open>
  Claim C8 as stated has the thinking level passed as
  \<^verbatim>\<open>--config 'model_reasoning_effort="medium"'\<close>. The command for the same input contains
  \<^verbatim>\<open>--thinking 'medium'\<close> and neither \<^verbatim>\<open>--config\<close> nor \<^verbatim>\<open>model_reasoning_effort\<close>.
\<close>

theorem thinking_flag_counterexample:
  "includesStr (buildAgentCommand ''ping'' testOptions) ('' --thinking '' @ [SQ] @ ''medium'' @ [SQ])
   \<and> \<not> includesStr (buildAgentCommand ''ping'' testOptions) ''--config''
   \<and> \<not> includesStr (buildAgentCommand ''ping'' testOptions) ''model_reasoning_effort''"
  by (simp add: buildAgentCommand_def testOptions_def appendOptionalArg_def resolvePromptValue_def
      shellQuote_def escapeQuote_def trim_defs CODEX_CMD_def BASE_ARGS_def MODEL_ARG_def
      THINKING_ARG_def Let_def SQ_def)

section \<open>Properties of the output parser\<close>

lemma sample_parses:
  "JSON_parse_basic (threadStartedLine ''t1'')
     = Some (JObject [(''type'', JString ''thread.started''), (''thread_id'', JString ''t1'')])"
  "JSON_parse_basic (messageLine ''one'')
     = Some (JObject [(''type'', JString ''item.completed''),
          (''item'', JObject [(''type'', JString ''message''), (''text'', JString ''one'')])])"
  "JSON_parse_basic (channelMessageLine ''final'' ''two'')
     = Some (JObject [(''type'', JString ''item.completed''),
          (''item'', JObject [(''type'', JString ''message''), (''channel'', JString ''final''),
             (''text'', JString ''two'')])])"
  by (simp_all add: threadStartedLine_def messageLine_def channelMessageLine_def json_defs char_defs)

lemma scanPayload_messages:
  "st_messages (scanPayload st payload) = st_messages st @ messageOf payload"
  "st_buffer (scanPayload st payload) = st_buffer st"
  by (auto simp add: scanPayload_def messageOf_def split: option.splits json.splits)

lemma scanLine_messages:
  assumes "st_buffer st = []" "startsWith l ''{'' \<longrightarrow> JSON_parse l \<noteq> None"
  shows "st_messages (scanLine JSON_parse st l) = st_messages st @ lineMessages JSON_parse l"
    and "st_buffer (scanLine JSON_parse st l) = []"
  using assms
  by (auto simp add: scanLine_def lineMessages_def scanPayload_messages Let_def split: option.splits)

lemma foldl_scanLine_messages:
  assumes "st_buffer st = []"
    and "\<forall>l \<in> set ls. startsWith l ''{'' \<longrightarrow> JSON_parse l \<noteq> None"
  shows "st_messages (foldl (scanLine JSON_parse) st ls)
      = st_messages st @ concat (map (lineMessages JSON_parse) ls)"
  using assms
proof (induction ls arbitrary: st)
  case Nil
  then show ?case by simp
next
  case (Cons l ls)
  have a: "st_buffer (scanLine JSON_parse st l) = []"
    using scanLine_messages(2) Cons.prems by simp
  have b: "st_messages (scanLine JSON_parse st l) = st_messages st @ lineMessages JSON_parse l"
    using scanLine_messages(1) Cons.prems by simp
  from Cons.IH [OF a] Cons.prems(2) show ?case by (simp add: b)
qed

lemma splitLinesFrom_no_LF:
  "LF \<notin> set l \<Longrightarrow> splitLinesFrom cur l = [cur @ l]"
  by (induction cur l rule: splitLinesFrom.induct) auto

lemma splitLinesFrom_line:
  "LF \<notin> set l \<Longrightarrow> l = [] \<or> last l \<noteq> CR \<Longrightarrow>
     splitLinesFrom cur (l @ LF # rest) = (cur @ l) # splitLinesFrom [] rest"
proof (induction l arbitrary: cur)
  case Nil
  then show ?case by (cases rest) simp_all
next
  case (Cons c l)
  show ?case
  proof (cases l)
    case Nil
    with Cons.prems show ?thesis by (cases rest) auto
  next
    case (Cons c' l')
    with Cons.prems Cons.IH [of "cur @ [c]"] show ?thesis by auto
  qed
qed

lemma splitLinesFrom_joinWith:
  "ls \<noteq> [] \<Longrightarrow> \<forall>l \<in> set ls. LF \<notin> set l \<and> (l = [] \<or> last l \<noteq> CR) \<Longrightarrow>
     splitLinesFrom [] (joinWith [LF] ls) = ls"
proof (induction "[LF]" ls rule: joinWith.induct)
  case 1
  then show ?case by simp
next
  case (2 x)
  then show ?case by (simp add: splitLinesFrom_no_LF)
next
  case (3 x y ys)
  then show ?case by (simp add: splitLinesFrom_line)
qed

lemma map_of_filter_other:
  "k \<noteq> k' \<Longrightarrow> map_of (filter (\<lambda>kv. fst kv \<noteq> k') xs) k = map_of xs k"
  by (induction xs) auto

lemma map_of_map_item:
  "map_of (map (\<lambda>kv. if fst kv = k' then (fst kv, f (snd kv)) else kv) xs) k
     = (if k = k' then map_option f (map_of xs k) else map_of xs k)"
  by (induction xs) auto

lemma member_dropChannel:
  "k \<noteq> ''channel'' \<Longrightarrow> member (dropChannel item) k = member item k"
  by (cases item) (simp_all add: rev_filter map_of_filter_other)

lemma jsTruthy_dropChannel:
  "jsTruthy (map_option dropChannel v) = jsTruthy v"
proof (cases v)
  case None
  then show ?thesis by simp
next
  case (Some item)
  then show ?thesis by (cases item) simp_all
qed

lemma itemTypeOf_dropChannel: "itemTypeOf (dropChannel item) = itemTypeOf item"
  by (simp add: itemTypeOf_def member_dropChannel)

lemma member_eraseChannel:
  "k \<noteq> ''channel'' \<Longrightarrow> member (eraseChannel payload) k
     = (if k = ''item'' then map_option dropChannel (member payload k) else member payload k)"
  by (cases payload) (simp_all add: rev_map rev_filter map_of_map_item map_of_filter_other)

lemma scanPayload_eraseChannel: "scanPayload st (eraseChannel payload) = scanPayload st payload"
proof (cases "member payload ''item''")
  case None
  then show ?thesis by (simp add: scanPayload_def member_eraseChannel)
next
  case (Some item)
  then show ?thesis
    using jsTruthy_dropChannel [of "Some item"]
    by (simp add: scanPayload_def member_eraseChannel member_dropChannel itemTypeOf_dropChannel
        split: option.splits json.splits)
qed

lemma scanLine_eraseChannel:
  "scanLine (\<lambda>l. map_option eraseChannel (JSON_parse l)) st l = scanLine JSON_parse st l"
  by (simp add: scanLine_def Let_def scanPayload_eraseChannel split: option.splits)

lemma foldl_scanLine_eraseChannel:
  "foldl (scanLine (\<lambda>l. map_option eraseChannel (JSON_parse l))) st ls
     = foldl (scanLine JSON_parse) st ls"
  by (induction ls arbitrary: st) (simp_all add: scanLine_eraseChannel)

lemma crlf_lines: "splitLines crlfStream = sampleStream"
  by (simp add: crlfStream_def sampleStream_def splitLines_def threadStartedLine_def
      messageLine_def channelMessageLine_def char_defs)

lemma lf_lines: "splitLines (joinWith [LF] sampleStream) = sampleStream"
  by (simp add: splitLines_def splitLinesFrom_joinWith sampleStream_def threadStartedLine_def
      messageLine_def channelMessageLine_def char_defs)

lemma padded_lines: "splitLines paddedMessage = [paddedMessage]"
  by (simp add: paddedMessage_def splitLines_def messageLine_def char_defs)

lemma padded_parses:
  "JSON_parse_basic paddedMessage
     = Some (JObject [(''type'', JString ''item.completed''),
          (''item'', JObject [(''type'', JString ''message''), (''text'', JString '' hi '')])])"
  by (simp add: paddedMessage_def messageLine_def json_defs char_defs)

text \<open>
  Claim C4, as amended. Take any output, cut into lines at LF and at CR LF as
  \<open>splitLines\<close> does, in which \<^verbatim>\<open>JSON.parse\<close> accepts every line that starts with a
  brace. Then the text \<open>parseAgentOutput\<close> returns is the texts of all message records
  (the records \<open>messageOf\<close> keeps: type \<^verbatim>\<open>item.completed\<close>, an item whose text is a string
  and whose type contains \<^verbatim>\<open>message\<close>), in the order of the lines, joined by LF, with the
  joined text trimmed at both ends; lines that do not start with a brace add nothing.
  The whole result is also the one the parser gives when every record is read without
  its channel markers, so a channel marker changes nothing.
\<close>

theorem all_messages_joined:
  assumes "\<forall>l \<in> set (splitLines out). startsWith l ''{'' \<longrightarrow> JSON_parse l \<noteq> None"
  shows "co_text (parseAgentOutput JSON_parse out)
           = trim (joinWith [LF] (concat (map (lineMessages JSON_parse) (splitLines out))))
     \<and> parseAgentOutput (\<lambda>l. map_option eraseChannel (JSON_parse l)) out
           = parseAgentOutput JSON_parse out"
proof -
  have "st_messages (foldl (scanLine JSON_parse) scanStart (splitLines out))
      = concat (map (lineMessages JSON_parse) (splitLines out))"
    using foldl_scanLine_messages [of scanStart "splitLines out" JSON_parse] assms
    by (simp add: scanStart_def)
  then show ?thesis
    by (simp add: parseAgentOutput_def parseCodexJsonOutput_def Let_def
        foldl_scanLine_eraseChannel)
qed

text \<open>
  Claim C4 on a stream of a noise line, a thread record, a message without a channel
  and a message on the final channel, sent with CR LF line ends and with LF line ends,
  and on a single message whose text has a space on either side: the two texts come
  back joined, the channel marker can be erased, and the single text comes back trimmed.
\<close>

theorem all_messages_joined_witness:
  "splitLines crlfStream = sampleStream
   \<and> splitLines (joinWith [LF] sampleStream) = sampleStream
   \<and> map (\<lambda>l. startsWith l ''{'') sampleStream = [False, True, True, True]
   \<and> map (\<lambda>l. JSON_parse_basic l = None) sampleStream = [True, False, False, False]
   \<and> co_text (parseAgentOutput JSON_parse_basic crlfStream) = ''one'' @ [LF] @ ''two''
   \<and> co_text (parseAgentOutput JSON_parse_basic (joinWith [LF] sampleStream))
       = ''one'' @ [LF] @ ''two''
   \<and> parseAgentOutput (\<lambda>l. map_option eraseChannel (JSON_parse_basic l)) crlfStream
       = parseAgentOutput JSON_parse_basic crlfStream
   \<and> map_option eraseChannel (JSON_parse_basic (channelMessageLine ''final'' ''two''))
       = JSON_parse_basic (messageLine ''two'')
   \<and> splitLines paddedMessage = [paddedMessage]
   \<and> concat (map (lineMessages JSON_parse_basic) (splitLines paddedMessage)) = ['' hi '']
   \<and> co_text (parseAgentOutput JSON_parse_basic paddedMessage) = ''hi''"
proof -
  have s: "map (\<lambda>l. startsWith l ''{'') sampleStream = [False, True, True, True]"
    by (simp add: sampleStream_def startsWith_def threadStartedLine_def messageLine_def
        channelMessageLine_def)
  have p: "map (\<lambda>l. JSON_parse_basic l = None) sampleStream = [True, False, False, False]"
    by (simp add: sampleStream_def sample_parses) (simp add: json_defs char_defs)
  have h: "\<forall>l \<in> set sampleStream. startsWith l ''{'' \<longrightarrow> JSON_parse_basic l \<noteq> None"
    by (simp add: sampleStream_def sample_parses) (simp add: startsWith_def)
  have h1: "\<forall>l \<in> set (splitLines crlfStream).
      startsWith l ''{'' \<longrightarrow> JSON_parse_basic l \<noteq> None"
    using h by (simp only: crlf_lines)
  have h2: "\<forall>l \<in> set (splitLines (joinWith [LF] sampleStream)).
      startsWith l ''{'' \<longrightarrow> JSON_parse_basic l \<noteq> None"
    using h by (simp only: lf_lines)
  have h3: "\<forall>l \<in> set (splitLines paddedMessage).
      startsWith l ''{'' \<longrightarrow> JSON_parse_basic l \<noteq> None"
    by (simp add: padded_lines padded_parses)
  have m: "concat (map (lineMessages JSON_parse_basic) sampleStream) = [''one'', ''two'']"
    by (simp add: sampleStream_def lineMessages_def sample_parses messageOf_def itemTypeOf_def)
       (simp add: startsWith_def threadStartedLine_def messageLine_def channelMessageLine_def)
  have m3: "concat (map (lineMessages JSON_parse_basic) (splitLines paddedMessage)) = ['' hi '']"
    by (simp add: padded_lines lineMessages_def padded_parses messageOf_def itemTypeOf_def)
       (simp add: startsWith_def paddedMessage_def messageLine_def)
  have t: "trim (''one'' @ [LF] @ ''two'') = ''one'' @ [LF] @ ''two''"
    by (simp add: trim_defs LF_def)
  have t3: "trim '' hi '' = ''hi''"
    by (simp add: trim_defs)
  have e: "map_option eraseChannel (JSON_parse_basic (channelMessageLine ''final'' ''two''))
       = JSON_parse_basic (messageLine ''two'')"
    by (simp add: channelMessageLine_def messageLine_def json_defs char_defs)
  from all_messages_joined [OF h1] have
    "co_text (parseAgentOutput JSON_parse_basic crlfStream) = ''one'' @ [LF] @ ''two''"
    "parseAgentOutput (\<lambda>l. map_option eraseChannel (JSON_parse_basic l)) crlfStream
       = parseAgentOutput JSON_parse_basic crlfStream"
    using t by (simp_all add: crlf_lines m)
  moreover from all_messages_joined [OF h2] have
    "co_text (parseAgentOutput JSON_parse_basic (joinWith [LF] sampleStream))
       = ''one'' @ [LF] @ ''two''"
    using t by (simp add: lf_lines m)
  moreover from all_messages_joined [OF h3] have
    "co_text (parseAgentOutput JSON_parse_basic paddedMessage) = ''hi''"
    using t3 by (simp add: m3)
  ultimately show ?thesis using s p e m3 crlf_lines lf_lines padded_lines by blast
qed

text \<open>
  Claim C4 as stated has the last message returned, and a message on the final channel
  preferred to later ones. The two messages of the repository's test come back joined,
  and so do a final-channel message and a later commentary message.
\<close>

theorem last_message_counterexample:
  "co_text (parseAgentOutput JSON_parse_basic
      (messageLine ''paso intermedio'' @ [LF] @ messageLine ''respuesta final''))
     = ''paso intermedio'' @ [LF] @ ''respuesta final''
   \<and> co_text (parseAgentOutput JSON_parse_basic
      (messageLine ''paso intermedio'' @ [LF] @ messageLine ''respuesta final''))
     \<noteq> ''respuesta final''
   \<and> co_text (parseAgentOutput JSON_parse_basic
      (channelMessageLine ''final'' ''hecho'' @ [LF] @ channelMessageLine ''commentary'' ''luego''))
     = ''hecho'' @ [LF] @ ''luego''
   \<and> co_text (parseAgentOutput JSON_parse_basic
      (channelMessageLine ''final'' ''hecho'' @ [LF] @ channelMessageLine ''commentary'' ''luego''))
     \<noteq> ''hecho''"
  by (simp add: messageLine_def channelMessageLine_def codex_defs json_defs char_defs trim_defs
      Let_def)

section \<open>Properties of the thread store\<close>

lemma buildThreadKey_not_legacy: "buildThreadKey chatId agentId \<noteq> getLegacyThreadKey chatId"
  by (simp add: buildThreadKey_def getLegacyThreadKey_def)

text \<open>
  Claim C3, as amended. When the canonical key has no entry and the legacy key holds a
  non-empty session id \<open>v\<close>, \<open>resolveThreadId\<close> returns \<open>v\<close> with \<open>migrated = True\<close>,
  stores \<open>v\<close> under the canonical key and deletes the legacy entry; a second call on the
  resulting map returns \<open>v\<close> with \<open>migrated = False\<close> and leaves the map as it is.
\<close>

theorem resolveThreadId_migrates_legacy_once:
  assumes "threads (buildThreadKey chatId agentId) = None"
    and "threads (getLegacyThreadKey chatId) = Some v"
    and "v \<noteq> []"
  shows "threadId (fst (resolveThreadId threads chatId agentId)) = Some v
       \<and> migrated (fst (resolveThreadId threads chatId agentId))
       \<and> threadKey (fst (resolveThreadId threads chatId agentId)) = buildThreadKey chatId agentId
       \<and> snd (resolveThreadId threads chatId agentId)
           = (threads(buildThreadKey chatId agentId \<mapsto> v))(getLegacyThreadKey chatId := None)
       \<and> snd (resolveThreadId threads chatId agentId) (buildThreadKey chatId agentId) = Some v
       \<and> snd (resolveThreadId threads chatId agentId) (getLegacyThreadKey chatId) = None
       \<and> resolveThreadId (snd (resolveThreadId threads chatId agentId)) chatId agentId
           = (\<lparr>threadKey = buildThreadKey chatId agentId, threadId = Some v, migrated = False\<rparr>,
              snd (resolveThreadId threads chatId agentId))"
proof -
  have ne: "buildThreadKey chatId agentId \<noteq> getLegacyThreadKey chatId"
    by (rule buildThreadKey_not_legacy)
  have first: "resolveThreadId threads chatId agentId
      = (\<lparr>threadKey = buildThreadKey chatId agentId, threadId = Some v, migrated = True\<rparr>,
         (threads(buildThreadKey chatId agentId \<mapsto> v))(getLegacyThreadKey chatId := None))"
    using assms by (simp add: resolveThreadId_def Let_def)
  have second: "resolveThreadId
        ((threads(buildThreadKey chatId agentId \<mapsto> v))(getLegacyThreadKey chatId := None))
        chatId agentId
      = (\<lparr>threadKey = buildThreadKey chatId agentId, threadId = Some v, migrated = False\<rparr>,
         (threads(buildThreadKey chatId agentId \<mapsto> v))(getLegacyThreadKey chatId := None))"
    using ne \<open>v \<noteq> []\<close> by (simp add: resolveThreadId_def Let_def)
  show ?thesis
    unfolding first using ne second by simp
qed

text \<open>
  The migration of claim C3 on the map that holds only \<open>''42'' \<mapsto> ''t1''\<close>.
\<close>

theorem resolveThreadId_migrates_legacy_once_witness:
  "[''42'' \<mapsto> ''t1''] (buildThreadKey ''42'' ''codex'') = None
   \<and> [''42'' \<mapsto> ''t1''] (getLegacyThreadKey ''42'') = Some ''t1''
   \<and> ''t1'' \<noteq> []
   \<and> threadId (fst (resolveThreadId [''42'' \<mapsto> ''t1''] ''42'' ''codex'')) = Some ''t1''
   \<and> migrated (fst (resolveThreadId [''42'' \<mapsto> ''t1''] ''42'' ''codex''))
   \<and> snd (resolveThreadId [''42'' \<mapsto> ''t1''] ''42'' ''codex'') (buildThreadKey ''42'' ''codex'')
       = Some ''t1''
   \<and> snd (resolveThreadId [''42'' \<mapsto> ''t1''] ''42'' ''codex'') (getLegacyThreadKey ''42'') = None
   \<and> resolveThreadId (snd (resolveThreadId [''42'' \<mapsto> ''t1''] ''42'' ''codex'')) ''42'' ''codex''
       = (\<lparr>threadKey = buildThreadKey ''42'' ''codex'', threadId = Some ''t1'', migrated = False\<rparr>,
          snd (resolveThreadId [''42'' \<mapsto> ''t1''] ''42'' ''codex''))"
proof -
  have h1: "[''42'' \<mapsto> ''t1''] (buildThreadKey ''42'' ''codex'') = None"
    by (simp add: buildThreadKey_def)
  have h2: "[''42'' \<mapsto> ''t1''] (getLegacyThreadKey ''42'') = Some ''t1''"
    by (simp add: getLegacyThreadKey_def)
  have h3: "''t1'' \<noteq> []" by simp
  show ?thesis
    using h1 h2 h3 resolveThreadId_migrates_legacy_once [OF h1 h2 h3] by blast
qed

text \<open>
  Claim C3 as stated covers every legacy-only entry. An entry whose value is the empty
  string fails the test \<^verbatim>\<open>if (legacy)\<close>: nothing is returned and nothing is migrated.
\<close>

theorem resolveThreadId_empty_legacy_counterexample:
  "[''42'' \<mapsto> ''''] (buildThreadKey ''42'' ''codex'') = None
   \<and> [''42'' \<mapsto> ''''] (getLegacyThreadKey ''42'') = Some ''''
   \<and> resolveThreadId [''42'' \<mapsto> ''''] ''42'' ''codex''
       = (\<lparr>threadKey = ''42:codex'', threadId = None, migrated = False\<rparr>, [''42'' \<mapsto> ''''])"
  by (simp add: resolveThreadId_def buildThreadKey_def getLegacyThreadKey_def Let_def)

text \<open>
  Claim C7. On the empty map \<open>resolveThreadId\<close> returns no session id and
  \<open>migrated = False\<close>, for every chat id and agent id. After the runner has written a
  session id under the canonical key (it writes only a truthy one), \<open>resolveThreadId\<close>
  for the same chat and agent returns exactly that id, with \<open>migrated = False\<close>, and
  leaves the map as it is.
\<close>

theorem resolve_empty_and_after_persist:
  "resolveThreadId Map.empty chatId agentId
     = (\<lparr>threadKey = buildThreadKey chatId agentId, threadId = None, migrated = False\<rparr>, Map.empty)
   \<and> (truthy (out_threadId parsed) \<longrightarrow>
        resolveThreadId (w_threads (persistSessionId (buildThreadKey chatId agentId) parsed w))
            chatId agentId
          = (\<lparr>threadKey = buildThreadKey chatId agentId, threadId = out_threadId parsed,
              migrated = False\<rparr>,
             w_threads (persistSessionId (buildThreadKey chatId agentId) parsed w)))"
  by (cases "out_threadId parsed") (simp_all add: resolveThreadId_def persistSessionId_def Let_def)

text \<open>
  Claim C7 on the session id \<open>t1\<close> written for chat 42 and agent codex.
\<close>

theorem resolve_empty_and_after_persist_witness:
  "truthy (out_threadId \<lparr>out_text = Some ''hi'', out_threadId = Some ''t1'', out_sawJson = True\<rparr>)
   \<and> resolveThreadId
        (w_threads (persistSessionId (buildThreadKey ''42'' ''codex'')
           \<lparr>out_text = Some ''hi'', out_threadId = Some ''t1'', out_sawJson = True\<rparr> emptyWorld))
        ''42'' ''codex''
      = (\<lparr>threadKey = ''42:codex'', threadId = Some ''t1'', migrated = False\<rparr>,
         [''42:codex'' \<mapsto> ''t1''])"
  using resolve_empty_and_after_persist [of "''42''" "''codex''"
      "\<lparr>out_text = Some ''hi'', out_threadId = Some ''t1'', out_sawJson = True\<rparr>" emptyWorld]
  by (simp add: buildThreadKey_def persistSessionId_def emptyWorld_def)

section \<open>Properties of the agent runner\<close>

subsection \<open>What each part of a turn does to the state\<close>

lemma prepareTurn_threadTurns:
  "w_threadTurns (snd (prepareTurn d chatId prompt ro w))
     = (w_threadTurns w)(threadKey (fst (turnResolution d chatId ro w)) \<mapsto>
          nextTurnCount (w_threadTurns w) (threadKey (fst (turnResolution d chatId ro w))))"
  by (simp add: prepareTurn_def turnResolution_def Let_def split: prod.splits sum.splits)

lemma prepareTurn_threads:
  "w_threads (snd (prepareTurn d chatId prompt ro w)) = snd (turnResolution d chatId ro w)"
  by (simp add: prepareTurn_def turnResolution_def Let_def split: prod.splits sum.splits)

lemma prepareTurn_executed:
  "w_executed (snd (prepareTurn d chatId prompt ro w)) = w_executed w"
  by (simp add: prepareTurn_def turnResolution_def Let_def split: prod.splits sum.splits)

lemma prepareTurn_turn:
  assumes "prepareTurn d chatId prompt ro w = (Inr t, w1)"
  shows "t_threadKey t = threadKey (fst (turnResolution d chatId ro w))"
    and "t_threadId t = threadId (fst (turnResolution d chatId ro w))"
    and "t_turnCount t = nextTurnCount (w_threadTurns w) (t_threadKey t)"
    and "t_includeFileInstructions t
          = shouldIncludeFileInstructions (t_threadId t) (t_turnCount t) (fileInstructionsEvery d)"
    and "t_finalPrompt t
          = buildPrompt d (t_promptWithContext t)
              (case ro_imagePaths ro of None \<Rightarrow> [] | Some ps \<Rightarrow> ps) (ro_scriptContext ro)
              (case ro_documentPaths ro of None \<Rightarrow> [] | Some ps \<Rightarrow> ps)
              (t_includeFileInstructions t)"
    and "t_agent t = getAgent d (resolveEffectiveAgentId d chatId (ro_topicId ro) (ro_agentId ro))"
proof -
  obtain res threads1 where r:
    "injected_resolveThreadId d (w_threads w) chatId (ro_topicId ro)
       (resolveEffectiveAgentId d chatId (ro_topicId ro) (ro_agentId ro)) = (res, threads1)"
    by (cases "injected_resolveThreadId d (w_threads w) chatId (ro_topicId ro)
       (resolveEffectiveAgentId d chatId (ro_topicId ro) (ro_agentId ro))")
  have tr: "fst (turnResolution d chatId ro w) = res"
    by (simp add: turnResolution_def r)
  from assms have "\<exists>p2 c. t =
      \<lparr>t_agent = getAgent d (resolveEffectiveAgentId d chatId (ro_topicId ro) (ro_agentId ro)),
       t_threadKey = threadKey res, t_threadId = threadId res,
       t_turnCount = nextTurnCount (w_threadTurns w) (threadKey res),
       t_includeFileInstructions =
         shouldIncludeFileInstructions (threadId res)
           (nextTurnCount (w_threadTurns w) (threadKey res)) (fileInstructionsEvery d),
       t_promptWithContext = p2,
       t_finalPrompt = buildPrompt d p2
              (case ro_imagePaths ro of None \<Rightarrow> [] | Some ps \<Rightarrow> ps) (ro_scriptContext ro)
              (case ro_documentPaths ro of None \<Rightarrow> [] | Some ps \<Rightarrow> ps)
              (shouldIncludeFileInstructions (threadId res)
           (nextTurnCount (w_threadTurns w) (threadKey res)) (fileInstructionsEvery d)),
       t_commandToRun = c\<rparr>"
    unfolding prepareTurn_def Let_def r prod.case
    by (auto split: sum.splits)
  then obtain p2 c where t: "t =
      \<lparr>t_agent = getAgent d (resolveEffectiveAgentId d chatId (ro_topicId ro) (ro_agentId ro)),
       t_threadKey = threadKey res, t_threadId = threadId res,
       t_turnCount = nextTurnCount (w_threadTurns w) (threadKey res),
       t_includeFileInstructions =
         shouldIncludeFileInstructions (threadId res)
           (nextTurnCount (w_threadTurns w) (threadKey res)) (fileInstructionsEvery d),
       t_promptWithContext = p2,
       t_finalPrompt = buildPrompt d p2
              (case ro_imagePaths ro of None \<Rightarrow> [] | Some ps \<Rightarrow> ps) (ro_scriptContext ro)
              (case ro_documentPaths ro of None \<Rightarrow> [] | Some ps \<Rightarrow> ps)
              (shouldIncludeFileInstructions (threadId res)
           (nextTurnCount (w_threadTurns w) (threadKey res)) (fileInstructionsEvery d)),
       t_commandToRun = c\<rparr>" by blast
  show "t_threadKey t = threadKey (fst (turnResolution d chatId ro w))"
    and "t_threadId t = threadId (fst (turnResolution d chatId ro w))"
    and "t_turnCount t = nextTurnCount (w_threadTurns w) (t_threadKey t)"
    and "t_includeFileInstructions t
          = shouldIncludeFileInstructions (t_threadId t) (t_turnCount t) (fileInstructionsEvery d)"
    and "t_finalPrompt t
          = buildPrompt d (t_promptWithContext t)
              (case ro_imagePaths ro of None \<Rightarrow> [] | Some ps \<Rightarrow> ps) (ro_scriptContext ro)
              (case ro_documentPaths ro of None \<Rightarrow> [] | Some ps \<Rightarrow> ps)
              (t_includeFileInstructions t)"
    and "t_agent t = getAgent d (resolveEffectiveAgentId d chatId (ro_topicId ro) (ro_agentId ro))"
    by (simp_all add: t tr)
qed

lemma executeTurn_world:
  "w_threads (snd (executeTurn d a c w)) = w_threads w"
  "w_threadTurns (snd (executeTurn d a c w)) = w_threadTurns w"
  "w_executed (snd (executeTurn d a c w)) = w_executed w @ [c]"
  by (simp_all add: executeTurn_def Let_def split: exec_result.splits option.splits)

lemma executeTurn_resolved:
  "execLocal d (w_executed w) c = Resolved out \<Longrightarrow>
     executeTurn d a c w = (Inr (parseOutput a out, out), w\<lparr>w_executed := w_executed w @ [c]\<rparr>)"
  by (simp add: executeTurn_def Let_def)

lemma executeTurn_rejected_soft:
  "execLocal d (w_executed w) c = Rejected err \<Longrightarrow> usableStdout a err \<Longrightarrow>
   err_stdout err = Some stdout \<Longrightarrow>
     executeTurn d a c w
       = (Inr (parseOutput a stdout, stdout),
          w\<lparr>w_executed := w_executed w @ [c], w_warnings := w_warnings w @ [ExitedNonZero err]\<rparr>)"
  by (simp add: executeTurn_def usableStdout_def Let_def)

lemma executeTurn_rejected_hard:
  "execLocal d (w_executed w) c = Rejected err \<Longrightarrow> \<not> usableStdout a err \<Longrightarrow>
     executeTurn d a c w = (Inl err, w\<lparr>w_executed := w_executed w @ [c]\<rparr>)"
  by (auto simp add: executeTurn_def usableStdout_def Let_def split: option.splits)

lemma recoverSessionId_world:
  "w_threads (snd (recoverSessionId d a p w)) = w_threads w"
  "w_threadTurns (snd (recoverSessionId d a p w)) = w_threadTurns w"
  by (simp_all add: recoverSessionId_def Let_def split: exec_result.splits option.splits)

lemma recoverSessionId_text:
  "out_text (fst (recoverSessionId d a p w)) = out_text p"
  "out_sawJson (fst (recoverSessionId d a p w)) = out_sawJson p"
  by (simp_all add: recoverSessionId_def Let_def split: exec_result.splits option.splits)

lemma recoverSessionId_warnings:
  "set (w_warnings w) \<subseteq> set (w_warnings (snd (recoverSessionId d a p w)))"
  by (auto simp add: recoverSessionId_def Let_def split: exec_result.splits option.splits)

lemma recoverSessionId_direct:
  "truthy (out_threadId parsed) \<Longrightarrow> recoverSessionId d a parsed w = (parsed, w)"
  by (simp add: recoverSessionId_def)

lemma recoverSessionId_executed:
  assumes "\<not> truthy (out_threadId parsed)" and "listSessionsCommand a = Some lc"
  shows "w_executed (snd (recoverSessionId d a parsed w)) = w_executed w @ [decorateCommand d a lc]"
  using assms
  by (simp add: recoverSessionId_def Let_def split: exec_result.splits option.splits)

lemma recoverSessionId_resolved:
  assumes "\<not> truthy (out_threadId parsed)" and "listSessionsCommand a = Some lc"
    and "execLocal d (w_executed w) (decorateCommand d a lc) = Resolved listOutput"
    and "parseSessionList a = Some parseList" and "parseList listOutput = Some sid" and "sid \<noteq> []"
  shows "out_threadId (fst (recoverSessionId d a parsed w)) = Some sid"
  using assms by (simp add: recoverSessionId_def Let_def)

lemma recoverSessionId_rejected:
  assumes "\<not> truthy (out_threadId parsed)" and "listSessionsCommand a = Some lc"
    and "execLocal d (w_executed w) (decorateCommand d a lc) = Rejected e"
  shows "recoverSessionId d a parsed w
     = (parsed, w\<lparr>w_executed := w_executed w @ [decorateCommand d a lc],
                  w_warnings := w_warnings w @ [SessionRecoveryFailed e]\<rparr>)"
  using assms by (simp add: recoverSessionId_def Let_def)

lemma persistSessionId_threadTurns:
  "w_threadTurns (persistSessionId k p w) = w_threadTurns w"
  by (simp add: persistSessionId_def split: option.splits)

lemma persistSessionId_written:
  "out_threadId p = Some sid \<Longrightarrow> sid \<noteq> [] \<Longrightarrow>
     w_threads (persistSessionId k p w) = (w_threads w)(k \<mapsto> sid)"
  by (simp add: persistSessionId_def)

lemma persistSessionId_skipped:
  "\<not> truthy (out_threadId p) \<Longrightarrow> persistSessionId k p w = w"
  by (cases "out_threadId p") (simp_all add: persistSessionId_def)

lemma persistSessionId_executed:
  "w_executed (persistSessionId k p w) = w_executed w"
  "w_warnings (persistSessionId k p w) = w_warnings w"
  by (simp_all add: persistSessionId_def split: option.splits)

lemma runAgentForChat_unfold:
  assumes "prepareTurn d chatId prompt ro w = (Inr t, w1)"
    and "executeTurn d (t_agent t) (t_commandToRun t) w1 = (Inr (parsed, out), w2)"
  shows "runAgentForChat d chatId prompt ro w
     = (Inr (replyText parsed out),
        persistSessionId (t_threadKey t) (fst (recoverSessionId d (t_agent t) parsed w2))
          (snd (recoverSessionId d (t_agent t) parsed w2)))"
  using assms
  by (simp add: runAgentForChat_def replyText_def recoverSessionId_text split: prod.splits)
     (metis fst_conv recoverSessionId_text(1))

lemma runAgentForChat_hard:
  assumes "prepareTurn d chatId prompt ro w = (Inr t, w1)"
    and "executeTurn d (t_agent t) (t_commandToRun t) w1 = (Inl e, w2)"
  shows "runAgentForChat d chatId prompt ro w = (Inl e, w2)"
  using assms by (simp add: runAgentForChat_def)

lemma runAgentForChat_threadTurns:
  "w_threadTurns (snd (runAgentForChat d chatId prompt ro w))
     = w_threadTurns (snd (prepareTurn d chatId prompt ro w))"
proof (cases "prepareTurn d chatId prompt ro w")
  case (Pair r w1)
  show ?thesis
  proof (cases r)
    case (Inl e)
    with Pair show ?thesis by (simp add: runAgentForChat_def)
  next
    case (Inr t)
    show ?thesis
    proof (cases "executeTurn d (t_agent t) (t_commandToRun t) w1")
      case (Pair r2 w2)
      have w2: "w_threadTurns w2 = w_threadTurns w1"
        using executeTurn_world(2) [of d "t_agent t" "t_commandToRun t" w1] Pair by simp
      show ?thesis
      proof (cases r2)
        case (Inl e)
        with Pair \<open>prepareTurn d chatId prompt ro w = (r, w1)\<close> Inr w2 show ?thesis
          by (simp add: runAgentForChat_def)
      next
        case (Inr po)
        obtain parsed out where po: "po = (parsed, out)" by (cases po)
        obtain p' w3 where rec: "recoverSessionId d (t_agent t) parsed w2 = (p', w3)"
          by (cases "recoverSessionId d (t_agent t) parsed w2")
        have w3: "w_threadTurns w3 = w_threadTurns w2"
          using recoverSessionId_world(2) [of d "t_agent t" parsed w2] rec by simp
        show ?thesis
          using Pair \<open>prepareTurn d chatId prompt ro w = (r, w1)\<close> \<open>r = Inr t\<close> Inr po rec w2 w3
          by (simp add: runAgentForChat_def persistSessionId_threadTurns)
      qed
    qed
  qed
qed

lemma runAgentForChat_failed_threads:
  assumes "fst (runAgentForChat d chatId prompt ro w) = Inl e"
  shows "w_threads (snd (runAgentForChat d chatId prompt ro w))
     = w_threads (snd (prepareTurn d chatId prompt ro w))"
proof (cases "prepareTurn d chatId prompt ro w")
  case (Pair r w1)
  show ?thesis
  proof (cases r)
    case (Inl e)
    with Pair show ?thesis by (simp add: runAgentForChat_def)
  next
    case (Inr t)
    show ?thesis
    proof (cases "executeTurn d (t_agent t) (t_commandToRun t) w1")
      case (Pair r2 w2)
      have w2: "w_threads w2 = w_threads w1"
        using executeTurn_world(1) [of d "t_agent t" "t_commandToRun t" w1] Pair by simp
      show ?thesis
      proof (cases r2)
        case (Inl e)
        with Pair \<open>prepareTurn d chatId prompt ro w = (r, w1)\<close> Inr w2 show ?thesis
          by (simp add: runAgentForChat_def)
      next
        case (Inr po)
        with assms Pair \<open>prepareTurn d chatId prompt ro w = (r, w1)\<close> \<open>r = Inr t\<close> show ?thesis 
          by (simp add: runAgentForChat_def split: prod.splits)
      qed
    qed
  qed
qed

lemma js_rem_zero_iff: "0 < a \<Longrightarrow> js_rem a n = Some 0 \<longleftrightarrow> n dvd a"
  by (auto simp add: js_rem_def sgn_if mod_eq_0_iff_dvd)

subsection \<open>The concrete runner\<close>

lemma prepareTurn_sample:
  "prepareTurn (sampleDeps ex a) chatId prompt ro w
     = (Inr (projr (fst (prepareTurn (sampleDeps ex a) chatId prompt ro w))),
        snd (prepareTurn (sampleDeps ex a) chatId prompt ro w))"
proof -
  have "\<exists>t. fst (prepareTurn (sampleDeps ex a) chatId prompt ro w) = Inr t"
    by (simp add: prepareTurn_def sampleDeps_def Let_def split: prod.splits)
  then show ?thesis
    by (cases "prepareTurn (sampleDeps ex a) chatId prompt ro w") auto
qed

lemma sample_key:
  "threadKey (fst (turnResolution (sampleDeps ex codexAgent) ''42'' noRunOptions w)) = ''42:codex''"
  by (simp add: turnResolution_def sampleDeps_def codexAgent_def resolveThreadId_def
      buildThreadKey_def Let_def split: option.splits)

lemma sample_resumed:
  "turnResolution (sampleDeps ex codexAgent) ''42'' noRunOptions (resumedWorld n)
     = (\<lparr>threadKey = ''42:codex'', threadId = Some ''t1'', migrated = False\<rparr>,
        [''42:codex'' \<mapsto> ''t1''])"
  by (simp add: turnResolution_def sampleDeps_def codexAgent_def resolveThreadId_def
      buildThreadKey_def resumedWorld_def Let_def)

lemma sample_empty:
  "turnResolution (sampleDeps ex codexAgent) ''42'' noRunOptions emptyWorld
     = (\<lparr>threadKey = ''42:codex'', threadId = None, migrated = False\<rparr>, Map.empty)"
  by (simp add: turnResolution_def sampleDeps_def codexAgent_def resolveThreadId_def
      buildThreadKey_def getLegacyThreadKey_def emptyWorld_def Let_def)

lemma sample_legacy:
  "turnResolution (sampleDeps ex codexAgent) ''42'' noRunOptions legacyWorld
     = (\<lparr>threadKey = ''42:codex'', threadId = Some ''t1'', migrated = True\<rparr>,
        [''42:codex'' \<mapsto> ''t1''])"
  by (simp add: turnResolution_def sampleDeps_def codexAgent_def resolveThreadId_def
      buildThreadKey_def getLegacyThreadKey_def legacyWorld_def Let_def)

lemma sample_resolution_empty:
  "agent_id a = ''codex'' \<Longrightarrow>
   turnResolution (sampleDeps ex a) ''42'' noRunOptions emptyWorld
     = (\<lparr>threadKey = ''42:codex'', threadId = None, migrated = False\<rparr>, Map.empty)"
  by (simp add: turnResolution_def sampleDeps_def resolveThreadId_def
      buildThreadKey_def getLegacyThreadKey_def emptyWorld_def Let_def)

lemma sample_run_resolved:
  fixes a :: agent and out :: string and rest :: "exec_result list"
  assumes "agent_id a = ''codex''"
  defines "d \<equiv> sampleDeps (execScript (Resolved out # rest)) a"
  shows "\<exists>t w1. prepareTurn d ''42'' ''hello'' noRunOptions emptyWorld = (Inr t, w1)
     \<and> executeTurn d (t_agent t) (t_commandToRun t) w1
         = (Inr (parseOutput a out, out), w1\<lparr>w_executed := [t_commandToRun t]\<rparr>)
     \<and> t_agent t = a \<and> t_threadKey t = ''42:codex'' \<and> w_threads w1 = Map.empty
     \<and> w_warnings w1 = [] \<and> w_executed w1 = []"
proof -
  let ?t = "projr (fst (prepareTurn d ''42'' ''hello'' noRunOptions emptyWorld))"
  let ?w1 = "snd (prepareTurn d ''42'' ''hello'' noRunOptions emptyWorld)"
  have p: "prepareTurn d ''42'' ''hello'' noRunOptions emptyWorld = (Inr ?t, ?w1)"
    unfolding d_def by (rule prepareTurn_sample)
  have ag: "t_agent ?t = a"
    using prepareTurn_turn(6) [OF p] by (simp add: d_def sampleDeps_def)
  have key: "t_threadKey ?t = ''42:codex''"
    using prepareTurn_turn(1) [OF p] by (simp add: d_def sample_resolution_empty [OF assms(1)])
  have ex: "w_executed ?w1 = []"
    by (simp add: prepareTurn_executed emptyWorld_def)
  have th: "w_threads ?w1 = Map.empty"
    by (simp add: prepareTurn_threads d_def sample_resolution_empty [OF assms(1)])
  have wa: "w_warnings ?w1 = []"
    by (simp add: prepareTurn_def d_def sampleDeps_def emptyWorld_def Let_def split: prod.splits)
  have "execLocal d (w_executed ?w1) (t_commandToRun ?t) = Resolved out"
    by (simp only: ex) (simp add: d_def sampleDeps_def execScript_def)
  from executeTurn_resolved [OF this, of "t_agent ?t"]
  have "executeTurn d (t_agent ?t) (t_commandToRun ?t) ?w1
         = (Inr (parseOutput a out, out), ?w1\<lparr>w_executed := [t_commandToRun ?t]\<rparr>)"
    by (simp add: ag ex)
  with p ag key th wa ex show ?thesis by blast
qed

lemma hardError_unusable: "\<not> usableStdout a hardError"
  by (simp add: usableStdout_def hardError_def)

lemma sample_run_rejected_hard:
  fixes w :: world
  defines "d \<equiv> sampleDeps (execScript [Rejected hardError]) codexAgent"
  assumes "w_executed w = []"
  shows "fst (runAgentForChat d ''42'' ''hello'' noRunOptions w) = Inl hardError"
proof -
  let ?t = "projr (fst (prepareTurn d ''42'' ''hello'' noRunOptions w))"
  let ?w1 = "snd (prepareTurn d ''42'' ''hello'' noRunOptions w)"
  have p: "prepareTurn d ''42'' ''hello'' noRunOptions w = (Inr ?t, ?w1)"
    unfolding d_def by (rule prepareTurn_sample)
  have ex: "w_executed ?w1 = []"
    by (simp add: prepareTurn_executed assms)
  have "execLocal d (w_executed ?w1) (t_commandToRun ?t) = Rejected hardError"
    by (simp only: ex) (simp add: d_def sampleDeps_def execScript_def)
  from executeTurn_rejected_hard [OF this hardError_unusable]
  have "executeTurn d (t_agent ?t) (t_commandToRun ?t) ?w1
      = (Inl hardError, ?w1\<lparr>w_executed := w_executed ?w1 @ [t_commandToRun ?t]\<rparr>)" .
  from runAgentForChat_hard [OF p this] show ?thesis by simp
qed

subsection \<open>File instructions\<close>

text \<open>
  Claim C6. In every turn that reaches the prompt assembly, the flag handed to
  \<open>buildPrompt\<close> as \<^verbatim>\<open>includeFileInstructions\<close> is true if and only if the resolver
  returned no session id or the incremented turn count is a multiple of
  \<open>fileInstructionsEvery\<close>; the final prompt is \<open>buildPrompt\<close> applied with that flag.
\<close>

theorem fileInstructions_included_iff:
  assumes "prepareTurn d chatId prompt ro w = (Inr t, w1)"
  shows "t_threadId t = threadId (fst (turnResolution d chatId ro w))
       \<and> t_turnCount t = (case w_threadTurns w (t_threadKey t) of None \<Rightarrow> 0 | Some n \<Rightarrow> n) + 1
       \<and> t_finalPrompt t
           = buildPrompt d (t_promptWithContext t)
               (case ro_imagePaths ro of None \<Rightarrow> [] | Some ps \<Rightarrow> ps) (ro_scriptContext ro)
               (case ro_documentPaths ro of None \<Rightarrow> [] | Some ps \<Rightarrow> ps)
               (t_includeFileInstructions t)
       \<and> (t_includeFileInstructions t
            \<longleftrightarrow> \<not> truthy (t_threadId t) \<or> fileInstructionsEvery d dvd int (t_turnCount t))"
proof -
  note f = prepareTurn_turn [OF assms]
  have pos: "0 < int (t_turnCount t)"
    by (simp add: f(3) nextTurnCount_def)
  have "t_includeFileInstructions t
          \<longleftrightarrow> \<not> truthy (t_threadId t) \<or> fileInstructionsEvery d dvd int (t_turnCount t)"
    by (simp only: f(4) shouldIncludeFileInstructions_def js_rem_zero_iff [OF pos])
  moreover have "t_turnCount t = (case w_threadTurns w (t_threadKey t) of None \<Rightarrow> 0 | Some n \<Rightarrow> n) + 1"
    by (simp only: f(3) nextTurnCount_def)
  ultimately show ?thesis using f(2) f(5) by blast
qed

text \<open>
  Claim C6 with cadence 3: a first turn without a session, a fifth turn with a session
  (no instructions) and a sixth turn with a session (instructions).
\<close>

theorem fileInstructions_included_iff_witness:
  "(\<exists>t w1. prepareTurn (sampleDeps (execScript []) codexAgent) ''42'' ''hello'' noRunOptions emptyWorld
       = (Inr t, w1))
   \<and> t_threadId (projr (fst (prepareTurn (sampleDeps (execScript []) codexAgent) ''42'' ''hello''
         noRunOptions emptyWorld))) = None
   \<and> t_includeFileInstructions (projr (fst (prepareTurn (sampleDeps (execScript []) codexAgent) ''42''
         ''hello'' noRunOptions emptyWorld)))
   \<and> t_turnCount (projr (fst (prepareTurn (sampleDeps (execScript []) codexAgent) ''42'' ''again''
         noRunOptions (resumedWorld 4)))) = 5
   \<and> \<not> t_includeFileInstructions (projr (fst (prepareTurn (sampleDeps (execScript []) codexAgent) ''42''
         ''again'' noRunOptions (resumedWorld 4))))
   \<and> t_turnCount (projr (fst (prepareTurn (sampleDeps (execScript []) codexAgent) ''42'' ''again''
         noRunOptions (resumedWorld 5)))) = 6
   \<and> t_includeFileInstructions (projr (fst (prepareTurn (sampleDeps (execScript []) codexAgent) ''42''
         ''again'' noRunOptions (resumedWorld 5))))"
proof -
  let ?d = "sampleDeps (execScript []) codexAgent"
  have p0: "prepareTurn ?d ''42'' ''hello'' noRunOptions emptyWorld
      = (Inr (projr (fst (prepareTurn ?d ''42'' ''hello'' noRunOptions emptyWorld))),
         snd (prepareTurn ?d ''42'' ''hello'' noRunOptions emptyWorld))"
    by (rule prepareTurn_sample)
  have p1: "prepareTurn ?d ''42'' ''again'' noRunOptions (resumedWorld 4)
      = (Inr (projr (fst (prepareTurn ?d ''42'' ''again'' noRunOptions (resumedWorld 4)))),
         snd (prepareTurn ?d ''42'' ''again'' noRunOptions (resumedWorld 4)))"
    by (rule prepareTurn_sample)
  have p2: "prepareTurn ?d ''42'' ''again'' noRunOptions (resumedWorld 5)
      = (Inr (projr (fst (prepareTurn ?d ''42'' ''again'' noRunOptions (resumedWorld 5)))),
         snd (prepareTurn ?d ''42'' ''again'' noRunOptions (resumedWorld 5)))"
    by (rule prepareTurn_sample)
  have k0: "t_threadKey (projr (fst (prepareTurn ?d ''42'' ''hello'' noRunOptions emptyWorld)))
      = ''42:codex''"
    by (simp add: prepareTurn_turn(1) [OF p0] sample_key)
  have k1: "t_threadKey (projr (fst (prepareTurn ?d ''42'' ''again'' noRunOptions (resumedWorld 4))))
      = ''42:codex''"
    by (simp add: prepareTurn_turn(1) [OF p1] sample_key)
  have k2: "t_threadKey (projr (fst (prepareTurn ?d ''42'' ''again'' noRunOptions (resumedWorld 5))))
      = ''42:codex''"
    by (simp add: prepareTurn_turn(1) [OF p2] sample_key)
  have every: "fileInstructionsEvery ?d = 3" by (simp add: sampleDeps_def)
  have ex0: "\<exists>t w1. prepareTurn ?d ''42'' ''hello'' noRunOptions emptyWorld = (Inr t, w1)"
    using p0 by blast
  show ?thesis
    using fileInstructions_included_iff [OF p0] fileInstructions_included_iff [OF p1]
      fileInstructions_included_iff [OF p2] ex0
    by (simp add: k0 k1 k2 every sample_empty sample_resumed)
       (simp add: resumedWorld_def emptyWorld_def)
qed

subsection \<open>The turn counter\<close>

text \<open>
  Claim C10, as amended. The part of a turn that precedes the external process sets the
  turn counter of the resolved key to its old value (0 when absent) plus one and runs no
  command; the counter has this value when \<open>runAgentForChat\<close> returns, whether it
  returns a reply or throws; and when it throws, the thread map is the map as the
  resolver left it.
\<close>

theorem turn_counter_incremented:
  "w_threadTurns (snd (prepareTurn d chatId prompt ro w))
     = (w_threadTurns w)(threadKey (fst (turnResolution d chatId ro w)) \<mapsto>
         (case w_threadTurns w (threadKey (fst (turnResolution d chatId ro w))) of
            None \<Rightarrow> 0 | Some n \<Rightarrow> n) + 1)
   \<and> w_executed (snd (prepareTurn d chatId prompt ro w)) = w_executed w
   \<and> w_threadTurns (snd (runAgentForChat d chatId prompt ro w))
     = (w_threadTurns w)(threadKey (fst (turnResolution d chatId ro w)) \<mapsto>
         (case w_threadTurns w (threadKey (fst (turnResolution d chatId ro w))) of
            None \<Rightarrow> 0 | Some n \<Rightarrow> n) + 1)
   \<and> (\<forall>e. fst (runAgentForChat d chatId prompt ro w) = Inl e
        \<longrightarrow> w_threads (snd (runAgentForChat d chatId prompt ro w))
            = snd (turnResolution d chatId ro w))"
  by (simp add: runAgentForChat_threadTurns prepareTurn_threadTurns prepareTurn_executed
      runAgentForChat_failed_threads prepareTurn_threads nextTurnCount_def)

text \<open>
  Claim C10 on a failing turn of a chat that has a session under the canonical key and
  four turns behind it.
\<close>

theorem turn_counter_incremented_witness:
  "fst (runAgentForChat (sampleDeps (execScript [Rejected hardError]) codexAgent) ''42'' ''hello''
          noRunOptions (resumedWorld 4)) = Inl hardError
   \<and> w_threads (snd (runAgentForChat (sampleDeps (execScript [Rejected hardError]) codexAgent)
                      ''42'' ''hello'' noRunOptions (resumedWorld 4)))
       = w_threads (resumedWorld 4)
   \<and> w_threadTurns (resumedWorld 4) ''42:codex'' = Some 4
   \<and> w_threadTurns (snd (runAgentForChat (sampleDeps (execScript [Rejected hardError]) codexAgent)
                      ''42'' ''hello'' noRunOptions (resumedWorld 4))) ''42:codex'' = Some 5"
proof -
  let ?d = "sampleDeps (execScript [Rejected hardError]) codexAgent"
  have ex: "w_executed (resumedWorld 4) = []" by (simp add: resumedWorld_def)
  have failed: "fst (runAgentForChat ?d ''42'' ''hello'' noRunOptions (resumedWorld 4)) = Inl hardError"
    by (rule sample_run_rejected_hard [OF ex])
  show ?thesis
    using turn_counter_incremented [of ?d "''42''" "''hello''" noRunOptions "resumedWorld 4"] failed
    by (simp add: sample_resumed) (simp add: resumedWorld_def)
qed

text \<open>
  Claim C10 as stated has the thread map unchanged by a failed call. When the session of
  the chat sits under the legacy key, the resolver migrates it before the process runs: the
  call throws and the legacy entry is gone.
\<close>

theorem failed_turn_migrates_counterexample:
  "fst (runAgentForChat (sampleDeps (execScript [Rejected hardError]) codexAgent) ''42'' ''hello''
          noRunOptions legacyWorld) = Inl hardError
   \<and> w_threads legacyWorld ''42'' = Some ''t1''
   \<and> w_threads (snd (runAgentForChat (sampleDeps (execScript [Rejected hardError]) codexAgent)
                      ''42'' ''hello'' noRunOptions legacyWorld)) ''42'' = None"
proof -
  let ?d = "sampleDeps (execScript [Rejected hardError]) codexAgent"
  have ex: "w_executed legacyWorld = []" by (simp add: legacyWorld_def)
  have failed: "fst (runAgentForChat ?d ''42'' ''hello'' noRunOptions legacyWorld) = Inl hardError"
    by (rule sample_run_rejected_hard [OF ex])
  have "w_threads (snd (runAgentForChat ?d ''42'' ''hello'' noRunOptions legacyWorld))
      = [''42:codex'' \<mapsto> ''t1'']"
    by (simp add: runAgentForChat_failed_threads [OF failed] prepareTurn_threads sample_legacy)
  with failed show ?thesis by (simp add: legacyWorld_def)
qed

subsection \<open>Non-zero exit\<close>

text \<open>
  Claim C1. When \<open>execLocal\<close> rejects with an error whose standard output is usable
  (a string that is not blank, and the parser saw structured output in it or extracted a
  text that is not blank), \<open>runAgentForChat\<close> returns the reply taken from that output
  and records the non-zero exit as a warning; when the standard output is not usable, it
  throws the error of \<open>execLocal\<close>.
\<close>

theorem nonzero_exit_soft_or_hard:
  assumes prep: "prepareTurn d chatId prompt ro w = (Inr t, w1)"
    and rej: "execLocal d (w_executed w1) (t_commandToRun t) = Rejected err"
  shows "(usableStdout (t_agent t) err \<longrightarrow>
            (\<forall>stdout. err_stdout err = Some stdout \<longrightarrow>
               fst (runAgentForChat d chatId prompt ro w)
                 = Inr (replyText (parseOutput (t_agent t) stdout) stdout)
               \<and> ExitedNonZero err \<in> set (w_warnings (snd (runAgentForChat d chatId prompt ro w)))))
       \<and> (\<not> usableStdout (t_agent t) err \<longrightarrow>
            fst (runAgentForChat d chatId prompt ro w) = Inl err)"
proof (intro conjI impI allI)
  fix stdout
  assume u: "usableStdout (t_agent t) err" and s: "err_stdout err = Some stdout"
  note e = executeTurn_rejected_soft [OF rej u s]
  note run = runAgentForChat_unfold [OF prep e]
  show "fst (runAgentForChat d chatId prompt ro w)
      = Inr (replyText (parseOutput (t_agent t) stdout) stdout)"
    by (simp add: run)
  let ?w2 = "w1\<lparr>w_executed := w_executed w1 @ [t_commandToRun t],
           w_warnings := w_warnings w1 @ [ExitedNonZero err]\<rparr>"
  have "ExitedNonZero err \<in> set (w_warnings ?w2)" by simp
  then have "ExitedNonZero err
      \<in> set (w_warnings (snd (recoverSessionId d (t_agent t) (parseOutput (t_agent t) stdout) ?w2)))"
    by (rule subsetD [OF recoverSessionId_warnings])
  then show "ExitedNonZero err \<in> set (w_warnings (snd (runAgentForChat d chatId prompt ro w)))"
    by (simp add: run persistSessionId_executed)
next
  assume u: "\<not> usableStdout (t_agent t) err"
  from runAgentForChat_hard [OF prep executeTurn_rejected_hard [OF rej u]]
  show "fst (runAgentForChat d chatId prompt ro w) = Inl err" by simp
qed

text \<open>
  Claim C1 on three rejected runs of the codex adapter: one whose standard output holds a
  message record, one whose standard output is noise, and one without standard output.
\<close>

theorem nonzero_exit_soft_or_hard_witness:
  "usableStdout codexAgent softError
   \<and> fst (runAgentForChat (sampleDeps (execScript [Rejected softError]) codexAgent)
           ''42'' ''hello'' noRunOptions emptyWorld) = Inr ''partial''
   \<and> \<not> usableStdout codexAgent noiseError
   \<and> fst (runAgentForChat (sampleDeps (execScript [Rejected noiseError]) codexAgent)
           ''42'' ''hello'' noRunOptions emptyWorld) = Inl noiseError
   \<and> \<not> usableStdout codexAgent hardError
   \<and> fst (runAgentForChat (sampleDeps (execScript [Rejected hardError]) codexAgent)
           ''42'' ''hello'' noRunOptions emptyWorld) = Inl hardError"
proof -
  let ?d1 = "sampleDeps (execScript [Rejected softError]) codexAgent"
  let ?d2 = "sampleDeps (execScript [Rejected noiseError]) codexAgent"
  let ?d3 = "sampleDeps (execScript [Rejected hardError]) codexAgent"
  let ?t1 = "projr (fst (prepareTurn ?d1 ''42'' ''hello'' noRunOptions emptyWorld))"
  let ?t2 = "projr (fst (prepareTurn ?d2 ''42'' ''hello'' noRunOptions emptyWorld))"
  let ?t3 = "projr (fst (prepareTurn ?d3 ''42'' ''hello'' noRunOptions emptyWorld))"
  have p1: "prepareTurn ?d1 ''42'' ''hello'' noRunOptions emptyWorld
      = (Inr ?t1, snd (prepareTurn ?d1 ''42'' ''hello'' noRunOptions emptyWorld))"
    by (rule prepareTurn_sample)
  have p2: "prepareTurn ?d2 ''42'' ''hello'' noRunOptions emptyWorld
      = (Inr ?t2, snd (prepareTurn ?d2 ''42'' ''hello'' noRunOptions emptyWorld))"
    by (rule prepareTurn_sample)
  have p3: "prepareTurn ?d3 ''42'' ''hello'' noRunOptions emptyWorld
      = (Inr ?t3, snd (prepareTurn ?d3 ''42'' ''hello'' noRunOptions emptyWorld))"
    by (rule prepareTurn_sample)
  have a1: "t_agent ?t1 = codexAgent"
    using prepareTurn_turn(6) [OF p1] by (simp add: sampleDeps_def)
  have a2: "t_agent ?t2 = codexAgent"
    using prepareTurn_turn(6) [OF p2] by (simp add: sampleDeps_def)
  have a3: "t_agent ?t3 = codexAgent"
    using prepareTurn_turn(6) [OF p3] by (simp add: sampleDeps_def)
  have r1: "execLocal ?d1 (w_executed (snd (prepareTurn ?d1 ''42'' ''hello'' noRunOptions emptyWorld)))
      (t_commandToRun ?t1) = Rejected softError"
    by (simp add: prepareTurn_executed sampleDeps_def execScript_def emptyWorld_def)
  have r2: "execLocal ?d2 (w_executed (snd (prepareTurn ?d2 ''42'' ''hello'' noRunOptions emptyWorld)))
      (t_commandToRun ?t2) = Rejected noiseError"
    by (simp add: prepareTurn_executed sampleDeps_def execScript_def emptyWorld_def)
  have r3: "execLocal ?d3 (w_executed (snd (prepareTurn ?d3 ''42'' ''hello'' noRunOptions emptyWorld)))
      (t_commandToRun ?t3) = Rejected hardError"
    by (simp add: prepareTurn_executed sampleDeps_def execScript_def emptyWorld_def)
  have u1: "usableStdout codexAgent softError"
    by (simp add: usableStdout_def softError_def parse_partial)
       (simp add: messageLine_def trim_defs)
  have u2: "\<not> usableStdout codexAgent noiseError"
    by (simp add: usableStdout_def noiseError_def parse_noise textOrEmpty_def)
       (simp add: trim_defs)
  have u3: "\<not> usableStdout codexAgent hardError"
    by (simp add: usableStdout_def hardError_def)
  have s1: "err_stdout softError = Some (messageLine ''partial'')"
    by (simp add: softError_def)
  have rep: "replyText (parseOutput codexAgent (messageLine ''partial'')) (messageLine ''partial'')
      = ''partial''"
    by (simp add: parse_partial replyText_def textOrEmpty_def)
  show ?thesis
    using nonzero_exit_soft_or_hard [OF p1 r1] nonzero_exit_soft_or_hard [OF p2 r2]
      nonzero_exit_soft_or_hard [OF p3 r3] u1 u2 u3 s1 rep
    by (simp add: a1 a2 a3)
qed

subsection \<open>Session recovery\<close>

text \<open>
  Claim C2. In a turn whose process output was accepted: the reply is the text of the
  parsed output (or the raw output); a session id announced by the output is written
  under the thread key of the turn and no listing runs; when the output announced none
  and the adapter has a listing command, that command is executed next, a session id
  parsed from its output is written under the thread key, and a rejected listing leaves
  a warning and nothing else: the reply is returned and the thread map is not written.
\<close>

theorem session_id_recovery:
  assumes prep: "prepareTurn d chatId prompt ro w = (Inr t, w1)"
    and exec: "executeTurn d (t_agent t) (t_commandToRun t) w1 = (Inr (parsed, out), w2)"
  shows "fst (runAgentForChat d chatId prompt ro w) = Inr (replyText parsed out)
     \<and> (\<forall>sid. out_threadId parsed = Some sid \<and> sid \<noteq> [] \<longrightarrow>
           w_threads (snd (runAgentForChat d chatId prompt ro w))
             = (w_threads w2)(t_threadKey t \<mapsto> sid)
           \<and> w_executed (snd (runAgentForChat d chatId prompt ro w)) = w_executed w2)
     \<and> (\<forall>listCommand. \<not> truthy (out_threadId parsed)
             \<and> listSessionsCommand (t_agent t) = Some listCommand \<longrightarrow>
           w_executed (snd (runAgentForChat d chatId prompt ro w))
             = w_executed w2 @ [decorateCommand d (t_agent t) listCommand]
           \<and> (\<forall>listOutput parseList sid.
                 execLocal d (w_executed w2) (decorateCommand d (t_agent t) listCommand)
                   = Resolved listOutput
                 \<and> parseSessionList (t_agent t) = Some parseList
                 \<and> parseList listOutput = Some sid \<and> sid \<noteq> [] \<longrightarrow>
                 w_threads (snd (runAgentForChat d chatId prompt ro w))
                   = (w_threads w2)(t_threadKey t \<mapsto> sid))
           \<and> (\<forall>e. execLocal d (w_executed w2) (decorateCommand d (t_agent t) listCommand)
                   = Rejected e \<longrightarrow>
                 snd (runAgentForChat d chatId prompt ro w)
                   = w2\<lparr>w_executed := w_executed w2 @ [decorateCommand d (t_agent t) listCommand],
                        w_warnings := w_warnings w2 @ [SessionRecoveryFailed e]\<rparr>))"
proof -
  note run = runAgentForChat_unfold [OF prep exec]
  have reply: "fst (runAgentForChat d chatId prompt ro w) = Inr (replyText parsed out)"
    by (simp add: run)
  have direct: "w_threads (snd (runAgentForChat d chatId prompt ro w))
             = (w_threads w2)(t_threadKey t \<mapsto> sid)
           \<and> w_executed (snd (runAgentForChat d chatId prompt ro w)) = w_executed w2"
    if "out_threadId parsed = Some sid \<and> sid \<noteq> []" for sid
  proof -
    from that have tr: "truthy (out_threadId parsed)" by simp
    show ?thesis
      using that
      by (simp add: run recoverSessionId_direct [OF tr] persistSessionId_written
          persistSessionId_executed)
  qed
  have listing: "w_executed (snd (runAgentForChat d chatId prompt ro w))
             = w_executed w2 @ [decorateCommand d (t_agent t) listCommand]
           \<and> (\<forall>listOutput parseList sid.
                 execLocal d (w_executed w2) (decorateCommand d (t_agent t) listCommand)
                   = Resolved listOutput
                 \<and> parseSessionList (t_agent t) = Some parseList
                 \<and> parseList listOutput = Some sid \<and> sid \<noteq> [] \<longrightarrow>
                 w_threads (snd (runAgentForChat d chatId prompt ro w))
                   = (w_threads w2)(t_threadKey t \<mapsto> sid))
           \<and> (\<forall>e. execLocal d (w_executed w2) (decorateCommand d (t_agent t) listCommand)
                   = Rejected e \<longrightarrow>
                 snd (runAgentForChat d chatId prompt ro w)
                   = w2\<lparr>w_executed := w_executed w2 @ [decorateCommand d (t_agent t) listCommand],
                        w_warnings := w_warnings w2 @ [SessionRecoveryFailed e]\<rparr>)"
    if h: "\<not> truthy (out_threadId parsed) \<and> listSessionsCommand (t_agent t) = Some listCommand"
    for listCommand
  proof (intro conjI allI impI)
    from h have nt: "\<not> truthy (out_threadId parsed)"
      and lc: "listSessionsCommand (t_agent t) = Some listCommand" by simp_all
    show "w_executed (snd (runAgentForChat d chatId prompt ro w))
             = w_executed w2 @ [decorateCommand d (t_agent t) listCommand]"
      by (simp add: run persistSessionId_executed recoverSessionId_executed [OF nt lc])
    {
      fix listOutput parseList sid
      assume a: "execLocal d (w_executed w2) (decorateCommand d (t_agent t) listCommand)
                   = Resolved listOutput
                 \<and> parseSessionList (t_agent t) = Some parseList
                 \<and> parseList listOutput = Some sid \<and> sid \<noteq> []"
      then have "out_threadId (fst (recoverSessionId d (t_agent t) parsed w2)) = Some sid"
        using recoverSessionId_resolved [OF nt lc] by blast
      then show "w_threads (snd (runAgentForChat d chatId prompt ro w))
                   = (w_threads w2)(t_threadKey t \<mapsto> sid)"
        using a by (simp add: run persistSessionId_written recoverSessionId_world)
    }
    {
      fix e
      assume "execLocal d (w_executed w2) (decorateCommand d (t_agent t) listCommand) = Rejected e"
      from recoverSessionId_rejected [OF nt lc this]
      show "snd (runAgentForChat d chatId prompt ro w)
                   = w2\<lparr>w_executed := w_executed w2 @ [decorateCommand d (t_agent t) listCommand],
                        w_warnings := w_warnings w2 @ [SessionRecoveryFailed e]\<rparr>"
        using nt by (simp add: run persistSessionId_skipped)
    }
  qed
  from reply direct listing show ?thesis by blast
qed

text \<open>
  Claim C2 on three runs: a listing that yields \<open>sess-9\<close>, a listing that is rejected,
  and an output that announces the session \<open>t1\<close> itself.
\<close>

theorem session_id_recovery_witness:
  "fst (runAgentForChat
          (sampleDeps (execScript [Resolved (messageLine ''hi''), Resolved ''sess-9'']) listingAgent)
          ''42'' ''hello'' noRunOptions emptyWorld) = Inr ''hi''
   \<and> w_threads (snd (runAgentForChat
          (sampleDeps (execScript [Resolved (messageLine ''hi''), Resolved ''sess-9'']) listingAgent)
          ''42'' ''hello'' noRunOptions emptyWorld)) = [''42:codex'' \<mapsto> ''sess-9'']
   \<and> last (w_executed (snd (runAgentForChat
          (sampleDeps (execScript [Resolved (messageLine ''hi''), Resolved ''sess-9'']) listingAgent)
          ''42'' ''hello'' noRunOptions emptyWorld))) = ''codex-sessions --latest''
   \<and> fst (runAgentForChat
          (sampleDeps (execScript [Resolved (messageLine ''hi''), Rejected hardError]) listingAgent)
          ''42'' ''hello'' noRunOptions emptyWorld) = Inr ''hi''
   \<and> w_threads (snd (runAgentForChat
          (sampleDeps (execScript [Resolved (messageLine ''hi''), Rejected hardError]) listingAgent)
          ''42'' ''hello'' noRunOptions emptyWorld)) = Map.empty
   \<and> w_warnings (snd (runAgentForChat
          (sampleDeps (execScript [Resolved (messageLine ''hi''), Rejected hardError]) listingAgent)
          ''42'' ''hello'' noRunOptions emptyWorld)) = [SessionRecoveryFailed hardError]
   \<and> w_threads (snd (runAgentForChat
          (sampleDeps (execScript [Resolved firstTurnOutput])
             codexAgent)
          ''42'' ''hello'' noRunOptions emptyWorld)) = [''42:codex'' \<mapsto> ''t1'']"
proof -
  let ?d1 = "sampleDeps (execScript [Resolved (messageLine ''hi''), Resolved ''sess-9'']) listingAgent"
  let ?d2 = "sampleDeps (execScript [Resolved (messageLine ''hi''), Rejected hardError]) listingAgent"
  let ?d3 = "sampleDeps (execScript [Resolved firstTurnOutput])
               codexAgent"
  let ?hi = "\<lparr>out_text = Some ''hi'', out_threadId = None, out_sawJson = True\<rparr>"
  have reply: "replyText ?hi (messageLine ''hi'') = ''hi''"
    by (simp add: replyText_def textOrEmpty_def)
  have nt: "\<not> truthy (out_threadId ?hi)" by simp
  have dec: "decorateCommand d listingAgent c = c" for d c
    by (simp add: decorateCommand_def listingAgent_fields)
  have tr: "trim ''sess-9'' = ''sess-9''" by (simp add: trim_defs)
  \<comment> \<open>the listing succeeds\<close>
  obtain t1 w1 where p1: "prepareTurn ?d1 ''42'' ''hello'' noRunOptions emptyWorld = (Inr t1, w1)"
    and e1: "executeTurn ?d1 (t_agent t1) (t_commandToRun t1) w1
         = (Inr (?hi, messageLine ''hi''), w1\<lparr>w_executed := [t_commandToRun t1]\<rparr>)"
    and f1: "t_agent t1 = listingAgent" "t_threadKey t1 = ''42:codex''" "w_threads w1 = Map.empty"
      "w_warnings w1 = []" "w_executed w1 = []"
    using sample_run_resolved [OF listingAgent_fields(1), of "messageLine ''hi''" "[Resolved ''sess-9'']"]
    by (auto simp add: listingAgent_fields parse_hi)
  have x1: "execLocal ?d1 (w_executed (w1\<lparr>w_executed := [t_commandToRun t1]\<rparr>))
              (decorateCommand ?d1 (t_agent t1) ''codex-sessions --latest'') = Resolved ''sess-9''"
    by (simp add: sampleDeps_def execScript_def)
  note r1 = session_id_recovery [OF p1 e1]
  from r1 have a1: "fst (runAgentForChat ?d1 ''42'' ''hello'' noRunOptions emptyWorld) = Inr ''hi''"
    by (simp add: reply)
  from r1 nt have b1: "w_executed (snd (runAgentForChat ?d1 ''42'' ''hello'' noRunOptions emptyWorld))
      = [t_commandToRun t1, ''codex-sessions --latest'']"
    by (simp add: f1 listingAgent_fields dec)
  from r1 nt x1 have c1: "w_threads (snd (runAgentForChat ?d1 ''42'' ''hello'' noRunOptions emptyWorld))
      = [''42:codex'' \<mapsto> ''sess-9'']"
    by (simp add: f1 listingAgent_fields dec tr)
  \<comment> \<open>the listing fails\<close>
  obtain t2 w2 where p2: "prepareTurn ?d2 ''42'' ''hello'' noRunOptions emptyWorld = (Inr t2, w2)"
    and e2: "executeTurn ?d2 (t_agent t2) (t_commandToRun t2) w2
         = (Inr (?hi, messageLine ''hi''), w2\<lparr>w_executed := [t_commandToRun t2]\<rparr>)"
    and f2: "t_agent t2 = listingAgent" "t_threadKey t2 = ''42:codex''" "w_threads w2 = Map.empty"
      "w_warnings w2 = []" "w_executed w2 = []"
    using sample_run_resolved [OF listingAgent_fields(1), of "messageLine ''hi''" "[Rejected hardError]"]
    by (auto simp add: listingAgent_fields parse_hi)
  have x2: "execLocal ?d2 (w_executed (w2\<lparr>w_executed := [t_commandToRun t2]\<rparr>))
              (decorateCommand ?d2 (t_agent t2) ''codex-sessions --latest'') = Rejected hardError"
    by (simp add: sampleDeps_def execScript_def)
  note r2 = session_id_recovery [OF p2 e2]
  from r2 have a2: "fst (runAgentForChat ?d2 ''42'' ''hello'' noRunOptions emptyWorld) = Inr ''hi''"
    by (simp add: reply)
  from r2 nt x2 have s2: "snd (runAgentForChat ?d2 ''42'' ''hello'' noRunOptions emptyWorld)
      = w2\<lparr>w_executed := [t_commandToRun t2, ''codex-sessions --latest''],
           w_warnings := [SessionRecoveryFailed hardError]\<rparr>"
    by (simp add: f2 listingAgent_fields dec)
  \<comment> \<open>the output announces the session itself\<close>
  have cid: "agent_id codexAgent = ''codex''" by (simp add: codexAgent_def)
  obtain t3 w3 where p3: "prepareTurn ?d3 ''42'' ''hello'' noRunOptions emptyWorld = (Inr t3, w3)"
    and e3: "executeTurn ?d3 (t_agent t3) (t_commandToRun t3) w3
         = (Inr (\<lparr>out_text = Some ''hi'', out_threadId = Some ''t1'', out_sawJson = True\<rparr>,
                 firstTurnOutput),
            w3\<lparr>w_executed := [t_commandToRun t3]\<rparr>)"
    and f3: "t_agent t3 = codexAgent" "t_threadKey t3 = ''42:codex''" "w_threads w3 = Map.empty"
    using sample_run_resolved [OF cid, of firstTurnOutput "[]"]
    by (auto simp add: parse_started_hi)
  from session_id_recovery [OF p3 e3]
  have c3: "w_threads (snd (runAgentForChat ?d3 ''42'' ''hello'' noRunOptions emptyWorld))
      = [''42:codex'' \<mapsto> ''t1'']"
    by (simp add: f3)
  show ?thesis
    using a1 b1 c1 a2 c3 by (simp add: s2 f2)
qed

section \<open>Properties of the per-key queue\<close>

subsection \<open>The invariant\<close>

lemma settled_simps [simp]:
  "settled Completed" "settled Failed" "\<not> settled Waiting" "\<not> settled Running"
  by (simp_all add: settled_def)

lemma qinv_init: "qinv qinit"
  by (simp add: qinv_def chained_def referenced_def serial_def traced_def ordered_def qinit_def)

lemma serialD:
  "serial s \<Longrightarrow> i < j \<Longrightarrow> j < q_count s \<Longrightarrow> q_key s i = q_key s j \<Longrightarrow>
   q_status s j \<noteq> Waiting \<Longrightarrow> settled (q_status s i)"
  unfolding serial_def by blast

lemma tracedD:
  assumes "traced s"
  shows "e \<in> set (q_trace s) \<Longrightarrow> eventTask e < q_count s"
    and "i < q_count s \<Longrightarrow> (Started i \<in> set (q_trace s)) = (q_status s i \<noteq> Waiting)"
    and "i < q_count s \<Longrightarrow> (Settled i \<in> set (q_trace s)) = settled (q_status s i)"
  using assms unfolding traced_def by blast+

lemma chainedD:
  assumes "chained s" "j < q_count s"
  shows "q_prev s j = None \<Longrightarrow> i < j \<Longrightarrow> q_key s i = q_key s j \<Longrightarrow> settled (q_status s i)"
    and "q_prev s j = Some p \<Longrightarrow> p < j \<and> q_key s p = q_key s j
           \<and> (\<forall>i. p < i \<and> i < j \<longrightarrow> q_key s i \<noteq> q_key s j)"
  using assms unfolding chained_def by blast+

lemma referencedD:
  assumes "referenced s"
  shows "q_queues s k = None \<Longrightarrow> i < q_count s \<Longrightarrow> q_key s i = k \<Longrightarrow> settled (q_status s i)"
    and "q_queues s k = Some p \<Longrightarrow> p < q_count s \<and> q_key s p = k
           \<and> (\<forall>i. p < i \<and> i < q_count s \<longrightarrow> q_key s i \<noteq> k)"
  using assms unfolding referenced_def by blast+

lemma orderedD:
  "ordered s \<Longrightarrow> i < j \<Longrightarrow> j < q_count s \<Longrightarrow> q_key s i = q_key s j \<Longrightarrow>
   q_trace s = xs @ Started j # ys \<Longrightarrow>
     Settled i \<in> set xs \<and> (\<forall>e \<in> set ys. eventTask e \<noteq> i)"
  unfolding ordered_def by blast

lemma enqueue_fields:
  "q_count (enqueue key work throws s) = Suc (q_count s)"
  "q_key (enqueue key work throws s) i = (if i = q_count s then key else q_key s i)"
  "q_prev (enqueue key work throws s) i = (if i = q_count s then q_queues s key else q_prev s i)"
  "q_status (enqueue key work throws s) i = (if i = q_count s then Waiting else q_status s i)"
  "q_queues (enqueue key work throws s) k = (if k = key then Some (q_count s) else q_queues s k)"
  "q_trace (enqueue key work throws s) = q_trace s"
  by (simp_all add: enqueue_def)

lemma chained_enqueue:
  assumes c: "chained s" and r: "referenced s"
  shows "chained (enqueue key work throws s)"
  unfolding chained_def
proof (intro allI impI conjI)
  fix j i
  assume j: "j < q_count (enqueue key work throws s)"
    and n: "q_prev (enqueue key work throws s) j = None"
    and i: "i < j" "q_key (enqueue key work throws s) i = q_key (enqueue key work throws s) j"
  show "settled (q_status (enqueue key work throws s) i)"
  proof (cases "j = q_count s")
    case True
    with n i have "q_queues s key = None" "i < q_count s" "q_key s i = key"
      by (simp_all add: enqueue_fields)
    from referencedD(1) [OF r this] \<open>i < q_count s\<close> show ?thesis
      by (simp add: enqueue_fields)
  next
    case False
    with j n i have "j < q_count s" "q_prev s j = None" "i < j" "q_key s i = q_key s j"
      by (simp_all add: enqueue_fields)
    from chainedD(1) [OF c this] \<open>i < j\<close> \<open>j < q_count s\<close> show ?thesis
      by (simp add: enqueue_fields)
  qed
next
  fix j p
  assume j: "j < q_count (enqueue key work throws s)"
    and sp: "q_prev (enqueue key work throws s) j = Some p"
  have "p < j \<and> q_key s p = (if j = q_count s then key else q_key s j)
        \<and> (\<forall>i. p < i \<and> i < j \<longrightarrow> q_key s i \<noteq> (if j = q_count s then key else q_key s j))"
  proof (cases "j = q_count s")
    case True
    with sp have "q_queues s key = Some p" by (simp add: enqueue_fields)
    from referencedD(2) [OF r this] True show ?thesis by simp
  next
    case False
    with j sp have "j < q_count s" "q_prev s j = Some p" by (simp_all add: enqueue_fields)
    from chainedD(2) [OF c this] False show ?thesis by simp
  qed
  then have p: "p < j" and k: "q_key s p = (if j = q_count s then key else q_key s j)"
    and b: "\<forall>i. p < i \<and> i < j \<longrightarrow> q_key s i \<noteq> (if j = q_count s then key else q_key s j)"
    by blast+
  from j have jle: "j \<le> q_count s" by (simp add: enqueue_fields)
  show "p < j" by (rule p)
  show "q_key (enqueue key work throws s) p = q_key (enqueue key work throws s) j"
    using p jle k by (simp add: enqueue_fields)
  fix i assume "p < i \<and> i < j"
  with b jle show "q_key (enqueue key work throws s) i \<noteq> q_key (enqueue key work throws s) j"
    by (simp add: enqueue_fields)
qed

lemma referenced_enqueue:
  assumes r: "referenced s"
  shows "referenced (enqueue key work throws s)"
  unfolding referenced_def
proof (intro allI impI conjI)
  fix k i
  assume n: "q_queues (enqueue key work throws s) k = None"
    and i: "i < q_count (enqueue key work throws s)" "q_key (enqueue key work throws s) i = k"
  from n have ne: "k \<noteq> key" and q: "q_queues s k = None"
    by (simp_all add: enqueue_fields split: if_splits)
  from i ne have "i < q_count s" "q_key s i = k"
    by (auto simp add: enqueue_fields less_Suc_eq split: if_splits)
  from referencedD(1) [OF r q this] \<open>i < q_count s\<close>
  show "settled (q_status (enqueue key work throws s) i)" by (simp add: enqueue_fields)
next
  fix k p
  assume sp: "q_queues (enqueue key work throws s) k = Some p"
  have "p < Suc (q_count s) \<and> (if p = q_count s then key else q_key s p) = k
      \<and> (\<forall>i. p < i \<and> i < Suc (q_count s) \<longrightarrow> (if i = q_count s then key else q_key s i) \<noteq> k)"
  proof (cases "k = key")
    case True
    with sp have "p = q_count s" by (simp add: enqueue_fields)
    with True show ?thesis by simp
  next
    case False
    with sp have "q_queues s k = Some p" by (simp add: enqueue_fields)
    from referencedD(2) [OF r this] False show ?thesis by (auto simp add: less_Suc_eq)
  qed
  then show "p < q_count (enqueue key work throws s)"
    and "q_key (enqueue key work throws s) p = k"
    by (simp_all add: enqueue_fields)
  fix i assume "p < i \<and> i < q_count (enqueue key work throws s)"
  with \<open>p < Suc (q_count s) \<and> (if p = q_count s then key else q_key s p) = k
      \<and> (\<forall>i. p < i \<and> i < Suc (q_count s) \<longrightarrow> (if i = q_count s then key else q_key s i) \<noteq> k)\<close>
  show "q_key (enqueue key work throws s) i \<noteq> k"
    by (simp add: enqueue_fields)
qed

lemma serial_enqueue:
  assumes "serial s"
  shows "serial (enqueue key work throws s)"
  using assms
  by (auto simp add: serial_def enqueue_def less_Suc_eq)

lemma traced_enqueue:
  assumes "traced s"
  shows "traced (enqueue key work throws s)"
  using assms
  by (auto simp add: traced_def enqueue_def less_Suc_eq)

lemma ordered_enqueue:
  assumes "ordered s" "traced s"
  shows "ordered (enqueue key work throws s)"
  unfolding ordered_def
proof (intro allI impI)
  fix i j xs ys
  assume a: "i < j \<and> j < q_count (enqueue key work throws s)
     \<and> q_key (enqueue key work throws s) i = q_key (enqueue key work throws s) j
     \<and> q_trace (enqueue key work throws s) = xs @ Started j # ys"
  then have tr: "q_trace s = xs @ Started j # ys" by (simp add: enqueue_def)
  then have "Started j \<in> set (q_trace s)" by simp
  with assms(2) have lt: "j < q_count s" by (auto simp add: traced_def)
  from a have ij: "i < j" by simp
  with a lt have keys: "q_key s i = q_key s j" by (auto simp add: enqueue_def)
  from orderedD [OF assms(1) ij lt keys tr]
  show "Settled i \<in> set xs \<and> (\<forall>e \<in> set ys. eventTask e \<noteq> i)" .
qed

lemma qinv_enqueue: "qinv s \<Longrightarrow> qinv (enqueue key work throws s)"
  by (simp add: qinv_def chained_enqueue referenced_enqueue serial_enqueue traced_enqueue
      ordered_enqueue)

text \<open>When a task may start, every earlier task of its key has settled.\<close>

lemma canStart_earlier_settled:
  assumes "chained s" "serial s" "canStart s j" "i < j" "q_key s i = q_key s j"
  shows "settled (q_status s i)"
proof (cases "q_prev s j")
  case None
  from assms(3) have "j < q_count s" by (simp add: canStart_def)
  from chainedD(1) [OF assms(1) this None assms(4,5)] show ?thesis .
next
  case (Some p)
  from assms(3) have j: "j < q_count s" and sp: "settled (q_status s p)"
    by (simp_all add: canStart_def Some)
  from chainedD(2) [OF assms(1) j Some]
  have p: "p < j" "q_key s p = q_key s j" "\<forall>i. p < i \<and> i < j \<longrightarrow> q_key s i \<noteq> q_key s j"
    by blast+
  from p(3) assms(4,5) have "i \<le> p" by (meson not_le_imp_less)
  show ?thesis
  proof (cases "i = p")
    case True
    with sp show ?thesis by simp
  next
    case False
    with \<open>i \<le> p\<close> have "i < p" by simp
    moreover from p(1) j have "p < q_count s" by simp
    moreover from p(2) assms(5) have "q_key s i = q_key s p" by simp
    moreover from sp have "q_status s p \<noteq> Waiting" by auto
    ultimately show ?thesis by (rule serialD [OF assms(2)])
  qed
qed

lemma ordered_append:
  assumes "ordered s" "serial s" "traced s"
    and same: "q_count s' = q_count s" "q_key s' = q_key s" "q_trace s' = q_trace s @ [e]"
    and active: "\<not> settled (q_status s (eventTask e))"
    and start: "\<And>i j. e = Started j \<Longrightarrow> i < j \<Longrightarrow> q_key s i = q_key s j
                  \<Longrightarrow> Settled i \<in> set (q_trace s)"
  shows "ordered s'"
  unfolding ordered_def
proof (intro allI impI)
  fix i j xs ys
  assume a: "i < j \<and> j < q_count s' \<and> q_key s' i = q_key s' j \<and> q_trace s' = xs @ Started j # ys"
  then have ij: "i < j" and j: "j < q_count s" and k: "q_key s i = q_key s j"
    and tr: "q_trace s @ [e] = xs @ Started j # ys"
    by (simp_all add: same)
  show "Settled i \<in> set xs \<and> (\<forall>e \<in> set ys. eventTask e \<noteq> i)"
  proof (cases ys rule: rev_cases)
    case Nil
    with tr have "xs = q_trace s" "e = Started j" by simp_all
    with start [OF _ ij k] Nil show ?thesis by simp
  next
    case (snoc ys' e')
    with tr have old: "q_trace s = xs @ Started j # ys'" and e': "e' = e" by simp_all
    from orderedD [OF assms(1) ij j k old]
    have o: "Settled i \<in> set xs" "\<forall>e \<in> set ys'. eventTask e \<noteq> i" by blast+
    from old have "Started j \<in> set (q_trace s)" by simp
    with tracedD(2) [OF assms(3) j] have "q_status s j \<noteq> Waiting" by simp
    from serialD [OF assms(2) ij j k this] active have "eventTask e \<noteq> i" by auto
    with o snoc e' show ?thesis by simp
  qed
qed

lemma qinv_start:
  assumes inv: "qinv s" and g: "canStart s i"
  shows "qinv (s\<lparr>q_status := (q_status s)(i := Running), q_trace := q_trace s @ [Started i]\<rparr>)"
    (is "qinv ?s'")
proof -
  from inv have c: "chained s" and r: "referenced s" and se: "serial s" and t: "traced s"
    and o: "ordered s" by (simp_all add: qinv_def)
  from g have i: "i < q_count s" and w: "q_status s i = Waiting" by (simp_all add: canStart_def)
  have st: "settled (q_status ?s' x) = settled (q_status s x)" for x
    using w by simp
  have st2: "settled (((q_status s)(i := Running)) x) = settled (q_status s x)" for x
    using w by simp
  have c': "chained ?s'"
    using c unfolding chained_def by (simp add: st2 del: fun_upd_apply)
  have r': "referenced ?s'"
    using r unfolding referenced_def by (simp add: st2 del: fun_upd_apply)
  have se': "serial ?s'"
    unfolding serial_def
  proof (intro allI impI)
    fix a b
    assume h: "a < b \<and> b < q_count ?s' \<and> q_key ?s' a = q_key ?s' b \<and> q_status ?s' b \<noteq> Waiting"
    show "settled (q_status ?s' a)"
    proof (cases "b = i")
      case True
      with h have "a < i" "q_key s a = q_key s i" by simp_all
      from canStart_earlier_settled [OF c se g this] show ?thesis by (simp only: st)
    next
      case False
      with h have "a < b" "b < q_count s" "q_key s a = q_key s b" "q_status s b \<noteq> Waiting"
        by simp_all
      from serialD [OF se this] show ?thesis by (simp only: st)
    qed
  qed
  have t': "traced ?s'"
    using t i w unfolding traced_def by auto
  have o': "ordered ?s'"
  proof (rule ordered_append [OF o se t, of ?s' "Started i"])
    show "\<not> settled (q_status s (eventTask (Started i)))" using w by simp
    fix a j assume "Started i = Started j" "a < j" "q_key s a = q_key s j"
    then have "a < i" "q_key s a = q_key s i" by simp_all
    from canStart_earlier_settled [OF c se g this] have "settled (q_status s a)" .
    moreover from \<open>a < i\<close> i have "a < q_count s" by simp
    ultimately show "Settled a \<in> set (q_trace s)" using tracedD(3) [OF t] by simp
  qed simp_all
  from c' r' se' t' o' show ?thesis by (simp add: qinv_def)
qed

lemma qinv_work:
  assumes inv: "qinv s" and g: "i < q_count s" "q_status s i = Running"
  shows "qinv (s\<lparr>q_work := (q_work s)(i := q_work s i - 1), q_trace := q_trace s @ [Effect i]\<rparr>)"
    (is "qinv ?s'")
proof -
  from inv have c: "chained s" and r: "referenced s" and se: "serial s" and t: "traced s"
    and o: "ordered s" by (simp_all add: qinv_def)
  have c': "chained ?s'" using c unfolding chained_def by simp
  have r': "referenced ?s'" using r unfolding referenced_def by simp
  have se': "serial ?s'" using se unfolding serial_def by simp
  have t': "traced ?s'" using t g unfolding traced_def by auto
  have o': "ordered ?s'"
    by (rule ordered_append [OF o se t, of ?s' "Effect i"]) (simp_all add: g)
  from c' r' se' t' o' show ?thesis by (simp add: qinv_def)
qed

lemma qinv_finish:
  assumes inv: "qinv s" and g: "i < q_count s" "q_status s i = Running"
  shows "qinv (s\<lparr>q_status := (q_status s)(i := if q_throws s i then Failed else Completed),
                  q_queues := (if q_queues s (q_key s i) = Some i
                               then (q_queues s)(q_key s i := None) else q_queues s),
                  q_trace := q_trace s @ [Settled i]\<rparr>)"
    (is "qinv ?s'")
proof -
  from inv have c: "chained s" and r: "referenced s" and se: "serial s" and t: "traced s"
    and o: "ordered s" by (simp_all add: qinv_def)
  have mono: "settled (q_status s x) \<Longrightarrow> settled (q_status ?s' x)" for x
    by simp
  have now: "settled (q_status ?s' i)" by simp
  have c': "chained ?s'"
    unfolding chained_def
  proof (intro allI impI conjI)
    fix j a
    assume "j < q_count ?s'" "q_prev ?s' j = None" "a < j" "q_key ?s' a = q_key ?s' j"
    then have "j < q_count s" "q_prev s j = None" "a < j" "q_key s a = q_key s j" by simp_all
    from chainedD(1) [OF c this] show "settled (q_status ?s' a)" by (rule mono)
  next
    fix j p
    assume "j < q_count ?s'" "q_prev ?s' j = Some p"
    then have "j < q_count s" "q_prev s j = Some p" by simp_all
    from chainedD(2) [OF c this] show "p < j" "q_key ?s' p = q_key ?s' j" by simp_all
    fix a assume "p < a \<and> a < j"
    with chainedD(2) [OF c \<open>j < q_count s\<close> \<open>q_prev s j = Some p\<close>]
    show "q_key ?s' a \<noteq> q_key ?s' j" by simp
  qed
  have r': "referenced ?s'"
    unfolding referenced_def
  proof (intro allI impI conjI)
    fix k a
    assume n: "q_queues ?s' k = None" and a: "a < q_count ?s'" "q_key ?s' a = k"
    then have a': "a < q_count s" "q_key s a = k" by simp_all
    show "settled (q_status ?s' a)"
    proof (cases "q_queues s k")
      case None
      from referencedD(1) [OF r None a'] show ?thesis by (rule mono)
    next
      case (Some p)
      with n have p: "p = i" "k = q_key s i" by (auto split: if_splits)
      from referencedD(2) [OF r Some]
      have after: "\<forall>b. p < b \<and> b < q_count s \<longrightarrow> q_key s b \<noteq> k" by blast
      show ?thesis
      proof (cases "a = i")
        case True
        then show ?thesis by simp
      next
        case False
        have "\<not> i < a"
        proof
          assume "i < a"
          with after a'(1) p(1) have "q_key s a \<noteq> k" by blast
          with a'(2) show False by simp
        qed
        with False have "a < i" by simp
        moreover from a' p have "q_key s a = q_key s i" by simp
        moreover from g have "q_status s i \<noteq> Waiting" by simp
        ultimately have "settled (q_status s a)" using serialD [OF se _ g(1)] by blast
        then show ?thesis by (rule mono)
      qed
    qed
  next
    fix k p
    assume "q_queues ?s' k = Some p"
    then have q: "q_queues s k = Some p" by (auto split: if_splits)
    from referencedD(2) [OF r q] show "p < q_count ?s'" "q_key ?s' p = k" by simp_all
    fix a assume "p < a \<and> a < q_count ?s'"
    with referencedD(2) [OF r q] show "q_key ?s' a \<noteq> k" by simp
  qed
  have se': "serial ?s'"
    unfolding serial_def
  proof (intro allI impI)
    fix a b
    assume h: "a < b \<and> b < q_count ?s' \<and> q_key ?s' a = q_key ?s' b \<and> q_status ?s' b \<noteq> Waiting"
    then have "q_status s b \<noteq> Waiting" using g by (auto split: if_splits)
    with h have "settled (q_status s a)" using serialD [OF se, of a b] by simp
    then show "settled (q_status ?s' a)" by (rule mono)
  qed
  have t': "traced ?s'"
    using t g unfolding traced_def by auto
  have o': "ordered ?s'"
    by (rule ordered_append [OF o se t, of ?s' "Settled i"]) (simp_all add: g)
  from c' r' se' t' o' show ?thesis by (simp add: qinv_def)
qed

lemma qinv_step: "qinv s \<Longrightarrow> qstep a s = Some s' \<Longrightarrow> qinv s'"
proof (cases a)
  case (Enqueue key work throws)
  assume "qinv s" "qstep a s = Some s'"
  with Enqueue show ?thesis by (auto simp add: qinv_enqueue)
next
  case (Start i)
  assume "qinv s" "qstep a s = Some s'"
  with Start show ?thesis using qinv_start [of s i] by (auto split: if_splits)
next
  case (Work i)
  assume "qinv s" "qstep a s = Some s'"
  with Work show ?thesis using qinv_work [of s i] by (auto split: if_splits)
next
  case (Finish i)
  assume "qinv s" "qstep a s = Some s'"
  with Finish show ?thesis using qinv_finish [of s i] by (auto split: if_splits)
qed

lemma qinv_run: "qinv s \<Longrightarrow> qrun as s = Some s' \<Longrightarrow> qinv s'"
proof (induction as arbitrary: s)
  case Nil
  then show ?case by simp
next
  case (Cons a as)
  then show ?case by (auto split: option.splits dest: qinv_step)
qed

subsection \<open>Order and exclusion under one key\<close>

lemma qinv_reachable: "qrun acts qinit = Some s \<Longrightarrow> qinv s"
  by (rule qinv_run [OF qinv_init])

lemma canStart_when_earlier_settled:
  assumes c: "chained s" and j: "j < q_count s" and w: "q_status s j = Waiting"
    and e: "\<forall>a < j. q_key s a = q_key s j \<longrightarrow> settled (q_status s a)"
  shows "canStart s j"
proof (cases "q_prev s j")
  case None
  with j w show ?thesis by (simp add: canStart_def)
next
  case (Some p)
  from chainedD(2) [OF c j Some] e have "settled (q_status s p)" by blast
  with j w Some show ?thesis by (simp add: canStart_def)
qed

lemmas queue_defs = qinit_def enqueue_def canStart_def settled_def

lemma twoKeys_run:
  "qrun twoKeys qinit \<noteq> None
   \<and> q_key (the (qrun twoKeys qinit)) 0 \<noteq> q_key (the (qrun twoKeys qinit)) 1
   \<and> q_status (the (qrun twoKeys qinit)) 0 = Running
   \<and> q_status (the (qrun twoKeys qinit)) 1 = Running"
  by (simp add: twoKeys_def queue_defs)

lemma longThenShort_run:
  "qrun longThenShort qinit \<noteq> None"
  "q_count (the (qrun longThenShort qinit)) = 2"
  "q_key (the (qrun longThenShort qinit)) 0 = ''k''"
  "q_key (the (qrun longThenShort qinit)) (Suc 0) = ''k''"
  "q_status (the (qrun longThenShort qinit)) 0 = Completed"
  "q_status (the (qrun longThenShort qinit)) (Suc 0) = Completed"
  "q_trace (the (qrun longThenShort qinit))
     = [Started 0, Effect 0, Effect 0, Effect 0, Settled 0, Started 1, Effect 1, Settled 1]"
  by (simp_all add: longThenShort_def queue_defs)

lemma failingThenNext_run:
  "qrun failingThenNext qinit \<noteq> None"
  "q_status (the (qrun failingThenNext qinit)) 0 = Failed"
  "q_status (the (qrun failingThenNext qinit)) (Suc 0) = Running"
  by (simp_all add: failingThenNext_def queue_defs)

lemma overlap_refused:
  "qrun startTooEarly qinit = None"
  by (simp add: startTooEarly_def queue_defs)

text \<open>
  Claim C9, on the model of the queue. In every state of every run, for two tasks under
  the same key of which \<open>i\<close> was submitted before \<open>j\<close>: if \<open>j\<close> has started then \<open>i\<close> has
  settled, so the two never overlap and start in submission order; in the trace, when
  \<open>j\<close> starts, \<open>i\<close> has settled before and nothing of \<open>i\<close> happens afterwards, however many
  effects either task performs; and once every earlier task of the key has settled, by
  completing or by throwing, \<open>j\<close> can start. Two tasks under different keys can be
  running at the same time.
\<close>

theorem queue_serializes_per_key:
  assumes "qrun acts qinit = Some s" "i < j" "j < q_count s" "q_key s i = q_key s j"
  shows "(q_status s j \<noteq> Waiting \<longrightarrow> settled (q_status s i))
       \<and> (\<forall>xs ys. q_trace s = xs @ Started j # ys \<longrightarrow>
             Settled i \<in> set xs \<and> (\<forall>e \<in> set ys. eventTask e \<noteq> i))
       \<and> (q_status s j = Waiting
            \<and> (\<forall>a < j. q_key s a = q_key s j \<longrightarrow> settled (q_status s a))
            \<longrightarrow> canStart s j)
       \<and> (\<exists>acts' s'. qrun acts' qinit = Some s' \<and> q_key s' 0 \<noteq> q_key s' 1
             \<and> q_status s' 0 = Running \<and> q_status s' 1 = Running)"
proof -
  from qinv_reachable [OF assms(1)]
  have c: "chained s" and se: "serial s" and o: "ordered s" by (simp_all add: qinv_def)
  have a: "q_status s j \<noteq> Waiting \<longrightarrow> settled (q_status s i)"
    using serialD [OF se assms(2,3,4)] by blast
  have b: "\<forall>xs ys. q_trace s = xs @ Started j # ys \<longrightarrow>
             Settled i \<in> set xs \<and> (\<forall>e \<in> set ys. eventTask e \<noteq> i)"
    using orderedD [OF o assms(2,3,4)] by blast
  have d: "q_status s j = Waiting
            \<and> (\<forall>a < j. q_key s a = q_key s j \<longrightarrow> settled (q_status s a))
            \<longrightarrow> canStart s j"
    using canStart_when_earlier_settled [OF c assms(3)] by blast
  from twoKeys_run obtain s' where "qrun twoKeys qinit = Some s'" by auto
  with twoKeys_run have "qrun twoKeys qinit = Some s' \<and> q_key s' 0 \<noteq> q_key s' 1
             \<and> q_status s' 0 = Running \<and> q_status s' 1 = Running" by simp
  then have e: "\<exists>acts' s'. qrun acts' qinit = Some s' \<and> q_key s' 0 \<noteq> q_key s' 1
             \<and> q_status s' 0 = Running \<and> q_status s' 1 = Running" by blast
  from a b d e show ?thesis by blast
qed

text \<open>
  Claim C9 on a long task followed by a short one under the same key, on the attempt to
  start the second while the first runs, and on a task that throws followed by another.
\<close>

theorem queue_serializes_per_key_witness:
  "qrun longThenShort qinit \<noteq> None
   \<and> q_count (the (qrun longThenShort qinit)) = 2
   \<and> q_key (the (qrun longThenShort qinit)) 0 = q_key (the (qrun longThenShort qinit)) 1
   \<and> q_status (the (qrun longThenShort qinit)) 1 = Completed
   \<and> settled (q_status (the (qrun longThenShort qinit)) 0)
   \<and> q_trace (the (qrun longThenShort qinit))
       = [Started 0, Effect 0, Effect 0, Effect 0, Settled 0] @ Started 1 # [Effect 1, Settled 1]
   \<and> Settled 0 \<in> set [Started 0, Effect 0, Effect 0, Effect 0, Settled 0]
   \<and> qrun startTooEarly qinit = None
   \<and> q_status (the (qrun failingThenNext qinit)) 0 = Failed
   \<and> q_status (the (qrun failingThenNext qinit)) 1 = Running"
proof -
  let ?s = "the (qrun longThenShort qinit)"
  have r: "qrun longThenShort qinit = Some ?s" using longThenShort_run(1) by auto
  have j: "1 < q_count ?s" by (simp add: longThenShort_run)
  have k: "q_key ?s 0 = q_key ?s 1" by (simp add: longThenShort_run)
  from queue_serializes_per_key [OF r zero_less_one j k]
  have "settled (q_status ?s 0)" by (simp add: longThenShort_run)
  then show ?thesis
    by (simp add: longThenShort_run failingThenNext_run overlap_refused)
qed

end
